theory Spec2Isabelle
  imports Main "HOL-Library.Char_ord" "HOL-Library.List_Lexorder"
begin

section \<open>Python strings\<close>

text \<open>
  A Python \<open>str\<close> is modelled as a HOL \<open>string\<close>. HOL characters are eight bits wide,
  so a character stands for a code point below 256. \<open>str.strip()\<close> without argument
  removes the characters for which \<open>str.isspace\<close> holds; below 256 these are the code
  points 9 to 13, 28 to 32, 133 and 160.
\<close>

definition py_isspace :: "char \<Rightarrow> bool" where
  "py_isspace c =
     (let n = (of_char c :: nat)
      in (9 \<le> n \<and> n \<le> 13) \<or> (28 \<le> n \<and> n \<le> 32) \<or> n = 133 \<or> n = 160)"

definition strip :: "string \<Rightarrow> string" where
  "strip s = rev (dropWhile py_isspace (rev (dropWhile py_isspace s)))"

text \<open>
  \<open>s.split(sep)\<close> for a separator of one character: the pieces between the
  separators, empty pieces kept, so the result has one more element than \<open>s\<close> has
  separators and is never empty.
\<close>

fun split :: "char \<Rightarrow> string \<Rightarrow> string list" where
  "split sep [] = [[]]"
| "split sep (x # xs) =
     (if x = sep then [] # split sep xs
      else (case split sep xs of
              [] \<Rightarrow> [[x]]
            | piece # pieces \<Rightarrow> (x # piece) # pieces))"

section \<open>Exceptions\<close>

text \<open>
  Every exception the modelled code can raise is a value. \<open>InvalidRegion\<close> and
  \<open>RegionLockedAPI\<close> are the two conditions of \<open>PyForks.exceptions\<close> and carry their
  message; \<open>TransportError\<close> stands for whatever the HTTP layer raises.
\<close>

datatype exn =
    InvalidRegion string
  | RegionLockedAPI string
  | AttributeError
  | ValueError
  | KeyError
  | OutOfBoundsDatetime
  | TransportError

section \<open>User scraper: location parsing\<close>

text \<open>
  Tuple unpacking \<open>a, b = xs\<close> and \<open>a, b, c = xs\<close>: \<open>ValueError\<close> unless the list has
  exactly that many elements, and then no target has been assigned.
\<close>

fun unpack2 :: "'a list \<Rightarrow> exn + 'a \<times> 'a" where
  "unpack2 [a, b] = Inr (a, b)"
| "unpack2 _ = Inl ValueError"

fun unpack3 :: "'a list \<Rightarrow> exn + 'a \<times> 'a \<times> 'a" where
  "unpack3 [a, b, c] = Inr (a, b, c)"
| "unpack3 _ = Inl ValueError"

text \<open>
  \<open>__get_user_city_state_country\<close> (trailforks\_user.py, lines 125 to 161). The argument
  is what \<open>soup.find("li", class_="location")\<close> gave: \<open>None\<close> when the profile page has
  no such element (then \<open>.getText()\<close> raises \<open>AttributeError\<close>, which is passed over),
  otherwise the text of the element.
\<close>

definition get_user_city_state_country :: "string option \<Rightarrow> string \<times> string \<times> string" where
  "get_user_city_state_country el =
     (case el of
        None \<Rightarrow> (''unknown'', ''unknown'', ''unknown'')
      | Some location \<Rightarrow>
          (case unpack2 (split CHR '','' (strip location)) of
             Inr (city, state) \<Rightarrow> (strip city, strip state, ''USA'')
           | Inl _ \<Rightarrow>
               (case unpack3 (split CHR '','' (strip location)) of
                  Inr (city, state, country) \<Rightarrow> (strip city, ''unknown'', strip country)
                | Inl _ \<Rightarrow> (''unknown'', strip location, ''unknown''))))"

section \<open>User scraper: ride ids\<close>

text \<open>
  The pattern of \<open>_parse_ride_ids\<close> is \<^verbatim>\<open>view\/(\d{8})/$\<close>: the five characters
  \<open>view/\<close>, a group of eight digits, a slash, and \<open>$\<close>. Without \<open>re.MULTILINE\<close>,
  Python's \<open>$\<close> holds at the end of the string and also just before a newline that is
  the last character of the string. \<open>\d\<close> is a decimal digit; among the code points
  below 256 these are \<open>0\<close> to \<open>9\<close>.
\<close>

definition is_digit :: "char \<Rightarrow> bool" where
  "is_digit c = (let n = (of_char c :: nat) in 48 \<le> n \<and> n \<le> 57)"

definition at_dollar :: "string \<Rightarrow> bool" where
  "at_dollar rest = (rest = [] \<or> rest = [CHR 0x0A])"

text \<open>The pattern tried at the start of \<open>s\<close>; the result is group 1.\<close>

definition match_here :: "string \<Rightarrow> string option" where
  "match_here s =
     (if take 5 s = ''view/''
         \<and> length (take 8 (drop 5 s)) = 8
         \<and> list_all is_digit (take 8 (drop 5 s))
         \<and> take 1 (drop 13 s) = ''/''
         \<and> at_dollar (drop 14 s)
      then Some (take 8 (drop 5 s)) else None)"

text \<open>
  \<open>rex.search(link)\<close>: the match at the leftmost position where the pattern matches,
  \<open>None\<close> when it matches nowhere.
\<close>

fun re_search :: "string \<Rightarrow> string option" where
  "re_search [] = match_here []"
| "re_search (c # cs) =
     (case match_here (c # cs) of
        Some g \<Rightarrow> Some g
      | None \<Rightarrow> re_search cs)"

text \<open>
  \<open>_parse_ride_ids\<close> (trailforks\_user.py, lines 105 to 123). Where the search gives
  \<open>None\<close>, \<open>.group(1)\<close> raises \<open>AttributeError\<close>, which the loop passes over.
\<close>

fun parse_ride_ids :: "string list \<Rightarrow> string list" where
  "parse_ride_ids [] = []"
| "parse_ride_ids (link # ridelog_links) =
     (case re_search link of
        Some g \<Rightarrow> g # parse_ride_ids ridelog_links
      | None \<Rightarrow> parse_ride_ids ridelog_links)"

text \<open>
  The rule as the specification words it, for comparison: the link ends with \<open>view/\<close>,
  eight digits and a slash, and the id is these digits.
\<close>

definition claimed_ride_id :: "string \<Rightarrow> string option" where
  "claimed_ride_id link =
     (let tail = drop (length link - 14) link
      in if 14 \<le> length link \<and> take 5 tail = ''view/''
            \<and> list_all is_digit (take 8 (drop 5 tail)) \<and> drop 13 tail = ''/''
         then Some (take 8 (drop 5 tail)) else None)"

section \<open>The client's surroundings\<close>

text \<open>
  What the code does to the outside is kept in a state that every operation takes and
  returns: the HTTP requests issued so far, in order, and the files of the working
  directory. An operation returns the new state and either the exception it raised
  (\<open>Inl\<close>) or its value (\<open>Inr\<close>).
\<close>

datatype request =
    RegionsByAlias string
  | RegionDetail int
  | Ridelogs string int nat nat
  | Trails int nat
  | RegionsPage nat nat
  | RescanBadges string
  | ProfileRidelog string

text \<open>
  \<open>RegionsByAlias region\<close> is the GET of \<open>/api/1/regions\<close> with the filter
  \<open>alias::region\<close>; \<open>RegionDetail id\<close> the GET of \<open>/api/1/region\<close>; \<open>Ridelogs fields
  id rows page\<close> the GET of \<open>/api/1/ridelogs\<close> with the filter \<open>rid::id\<close>; \<open>Trails id
  rows\<close> the GET of \<open>/api/1/trails\<close>; \<open>RegionsPage rows page\<close> the GET of
  \<open>/api/1/regions\<close> without filter; \<open>RescanBadges id\<close> the GET of
  \<open>/ridelog/view/id/rescanbadges/\<close>; \<open>ProfileRidelog user\<close> the GET of the user's
  ridelog page. The application id and secret are the same in every request of a client
  and are left out.
\<close>

record state =
  requests :: "request list"
  files :: "string \<Rightarrow> string option"

text \<open>
  A decoded answer of the JSON API: the HTTP status, the \<open>message\<close> field and the
  \<open>data\<close> field of the body.
\<close>

record 'd response =
  status_code :: int
  message :: string
  data :: 'd

record region =
  rid :: int
  title :: string
  alias_name :: string

text \<open>
  Of the fields of a region's detail record only \<open>ridden\<close> is read by the operations
  modelled here.
\<close>

record region_detail =
  ridden :: int

text \<open>
  A row of the table that \<open>get_region_ridecounts\<close> returns: a day, the number of its
  rides, and the calendar columns of the day.
\<close>

record ridecount =
  date :: "int \<times> int \<times> int"
  rides :: nat
  year :: int
  month :: int
  day :: int
  weekday_num :: int
  weekday :: string
  month_name :: string

text \<open>
  What lies outside \<open>region.py\<close> is a parameter of its operations: the answers of the
  remote API to each request (\<open>Inl\<close> when the request or the decoding of its body
  raises), the rows of the local region data file (alias and region id), and the step
  that adds the date column to the ride logs, which depends on the local time zone. Two
  answers of pandas are parameters as well, because they depend on how pandas stores the
  column: what \<open>pd.to_datetime(..., unit="s")\<close> gives for a column with a value outside
  the range of a time stamp (\<open>to_datetime_beyond\<close>), and what \<open>__enrich_ridecounts\<close>
  gives for a date column with a text that is not a date \<open>YYYY-MM-DD\<close>
  (\<open>enrich_other\<close>).
\<close>

record ('r, 't) api =
  regions_by_alias :: "string \<Rightarrow> exn + region list"
  region_by_id :: "int \<Rightarrow> exn + region_detail response"
  ridelog_created :: "int \<Rightarrow> nat \<Rightarrow> nat \<Rightarrow> exn + int list response"
  ridelog_rows :: "int \<Rightarrow> nat \<Rightarrow> nat \<Rightarrow> exn + 'r list response"
  trail_rows :: "int \<Rightarrow> nat \<Rightarrow> exn + 't list response"
  region_rows :: "nat \<Rightarrow> nat \<Rightarrow> exn + region list response"
  region_data_file :: "(string \<times> int) list"
  add_date_column :: "'r list \<Rightarrow> exn + ('r \<times> string) list"
  to_datetime_beyond :: "int list \<Rightarrow> exn + int option list"
  enrich_other :: "(string \<times> nat) list \<Rightarrow> exn + ridecount list"

subsection \<open>Sequencing\<close>

definition then_do ::
  "(state \<Rightarrow> state \<times> (exn + 'a)) \<Rightarrow> ('a \<Rightarrow> state \<Rightarrow> state \<times> (exn + 'b))
   \<Rightarrow> state \<Rightarrow> state \<times> (exn + 'b)" where
  "then_do m f st =
     (case m st of
        (st', Inl e) \<Rightarrow> (st', Inl e)
      | (st', Inr x) \<Rightarrow> f x st')"

definition return :: "'a \<Rightarrow> state \<Rightarrow> state \<times> (exn + 'a)" where
  "return x st = (st, Inr x)"

definition raise :: "exn \<Rightarrow> state \<Rightarrow> state \<times> (exn + 'a)" where
  "raise e st = (st, Inl e)"

text \<open>A computation without effect that may raise.\<close>

definition lift :: "exn + 'a \<Rightarrow> state \<Rightarrow> state \<times> (exn + 'a)" where
  "lift r st = (st, r)"

text \<open>A GET: the request is issued, then the answer is there or the call raises.\<close>

definition http_get :: "request \<Rightarrow> exn + 'a \<Rightarrow> state \<Rightarrow> state \<times> (exn + 'a)" where
  "http_get req answer st = (st\<lparr>requests := requests st @ [req]\<rparr>, answer)"

definition write_file :: "string \<Rightarrow> string \<Rightarrow> state \<Rightarrow> state \<times> (exn + unit)" where
  "write_file name text st = (st\<lparr>files := (files st)(name \<mapsto> text)\<rparr>, Inr ())"

section \<open>Region resolution\<close>

text \<open>\<open>is_valid_region\<close> (region.py, lines 11 to 26).\<close>

definition is_valid_region :: "('r, 't) api \<Rightarrow> string \<Rightarrow> state \<Rightarrow> state \<times> (exn + bool)" where
  "is_valid_region w region_name =
     then_do (http_get (RegionsByAlias region_name) (regions_by_alias w region_name))
       (\<lambda>r_json_data. if length r_json_data = 0 then return False else return True)"

text \<open>\<open>check_region\<close> (region.py, lines 28 to 40).\<close>

definition check_region :: "('r, 't) api \<Rightarrow> string \<Rightarrow> state \<Rightarrow> state \<times> (exn + bool)" where
  "check_region w region_name =
     then_do (is_valid_region w region_name)
       (\<lambda>valid. if \<not> valid
                 then raise (InvalidRegion
                        (''[!] '' @ region_name @ '' is not a valid Trailforks Region.''))
                 else return True)"

text \<open>
  \<open>get_region_id_by_alias\<close> (region.py, lines 190 to 203): the rows of the data file
  with this alias are selected and \<open>.item()\<close> raises \<open>ValueError\<close> unless there is
  exactly one.
\<close>

definition get_region_id_by_alias :: "('r, 't) api \<Rightarrow> string \<Rightarrow> state \<Rightarrow> state \<times> (exn + int)" where
  "get_region_id_by_alias w region_alias =
     lift (case filter (\<lambda>row. fst row = region_alias) (region_data_file w) of
             [row] \<Rightarrow> Inr (snd row)
           | _ \<Rightarrow> Inl ValueError)"

text \<open>\<open>_handle_status_code\<close> (region.py, lines 103 to 117).\<close>

definition handle_status_code :: "int \<Rightarrow> string \<Rightarrow> state \<Rightarrow> state \<times> (exn + unit)" where
  "handle_status_code code msg =
     (if code = 401 then raise (RegionLockedAPI (''[!] Error: '' @ msg)) else return ())"

text \<open>
  The four lines that every fetcher repeats: the GET, the decoding of the body, the
  status check with the body's message, and the selection of the \<open>data\<close> field.
\<close>

definition fetch :: "request \<Rightarrow> exn + 'd response \<Rightarrow> state \<Rightarrow> state \<times> (exn + 'd)" where
  "fetch req answer =
     then_do (http_get req answer)
       (\<lambda>r. then_do (handle_status_code (status_code r) (message r))
         (\<lambda>_. return (data r)))"

text \<open>\<open>get_region_info\<close> (region.py, lines 205 to 244), after its authentication gate.\<close>

definition get_region_info ::
  "('r, 't) api \<Rightarrow> string \<Rightarrow> state \<Rightarrow> state \<times> (exn + region_detail)" where
  "get_region_info w region_name =
     then_do (check_region w region_name)
       (\<lambda>_. then_do (get_region_id_by_alias w region_name)
         (\<lambda>region_id. fetch (RegionDetail region_id) (region_by_id w region_id)))"

section \<open>Tables\<close>

text \<open>
  A data frame is the list of its rows. \<open>pd.concat\<close> raises \<open>ValueError\<close> (no objects
  to concatenate) on an empty list of frames and otherwise puts the rows of the frames one
  after the other, in the order of the list.
\<close>

definition pd_concat :: "'a list list \<Rightarrow> exn + 'a list" where
  "pd_concat dfs = (if dfs = [] then Inl ValueError else Inr (concat dfs))"

subsection \<open>Calendar\<close>

text \<open>
  \<open>pd.to_datetime(..., unit="s")\<close> reads a number as seconds since 1970-01-01 00:00.
  A time stamp of pandas is a 64-bit count of nanoseconds and lies between
  1677-09-21 00:12:43.145224193 and 2262-04-11 23:47:16.854775807; \<open>in_bounds\<close> holds
  of the whole seconds of this range.
\<close>

definition in_bounds :: "int \<Rightarrow> bool" where
  "in_bounds seconds = (- 9223372036 \<le> seconds \<and> seconds \<le> 9223372036)"

text \<open>
  The day number of a time stamp is the floor of its seconds divided by 86400; day 0 is
  1970-01-01. The civil date of a day number, in the proleptic Gregorian calendar, is found
  by counting: first the years from 1677 on, whose first day has the number -107015, then
  the months of the year that was found. The years 1677 to 2262 hold every time stamp.
\<close>

definition is_leap :: "int \<Rightarrow> bool" where
  "is_leap y = (y mod 4 = 0 \<and> (y mod 100 \<noteq> 0 \<or> y mod 400 = 0))"

definition year_length :: "int \<Rightarrow> int" where
  "year_length y = (if is_leap y then 366 else 365)"

definition month_lengths :: "int \<Rightarrow> int list" where
  "month_lengths y = [31, if is_leap y then 29 else 28, 31, 30, 31, 30, 31, 31, 30, 31, 30, 31]"

text \<open>
  \<open>find_year z y s n\<close>: the year of day \<open>z\<close> and the days of that year before \<open>z\<close>,
  looked for from the year \<open>y\<close>, whose first day is \<open>s\<close>, through at most \<open>n\<close> later
  years.
\<close>

fun find_year :: "int \<Rightarrow> int \<Rightarrow> int \<Rightarrow> nat \<Rightarrow> int \<times> int" where
  "find_year z y s 0 = (y, z - s)"
| "find_year z y s (Suc n) =
     (if z < s + year_length y then (y, z - s)
      else find_year z (y + 1) (s + year_length y) n)"

text \<open>
  \<open>find_month r m ls\<close>: the month and the day of the month that lie \<open>r\<close> days after the
  first day of month \<open>m\<close>, where \<open>ls\<close> are the lengths of the months from \<open>m\<close> on.
\<close>

fun find_month :: "int \<Rightarrow> int \<Rightarrow> int list \<Rightarrow> int \<times> int" where
  "find_month r m [] = (m, r + 1)"
| "find_month r m (l # ls) =
     (if r < l then (m, r + 1) else find_month (r - l) (m + 1) ls)"

definition civil_from_days :: "int \<Rightarrow> int \<times> int \<times> int" where
  "civil_from_days days =
     (case find_year days 1677 (- 107015) 585 of
        (y, r) \<Rightarrow> (case find_month r 1 (month_lengths y) of (m, d) \<Rightarrow> (y, m, d)))"

text \<open>The day number of a civil date of the year 1677 or later.\<close>

definition days_from_civil :: "int \<times> int \<times> int \<Rightarrow> int" where
  "days_from_civil ymd =
     (case ymd of (y, m, d) \<Rightarrow>
        - 107015 + sum_list (map year_length [1677 .. y - 1])
        + sum_list (take (nat (m - 1)) (month_lengths y)) + d - 1)"

text \<open>Decimal digits, padded with zeros to a fixed width, and read back.\<close>

fun zero_padded :: "nat \<Rightarrow> nat \<Rightarrow> string" where
  "zero_padded 0 n = []"
| "zero_padded (Suc width) n = zero_padded width (n div 10) @ [char_of (48 + n mod 10)]"

definition decimal :: "string \<Rightarrow> nat" where
  "decimal s = foldl (\<lambda>n c. 10 * n + (of_char c - 48)) 0 s"

definition strftime_ymd :: "int \<times> int \<times> int \<Rightarrow> string" where
  "strftime_ymd ymd =
     (case ymd of (y, m, d) \<Rightarrow>
        zero_padded 4 (nat y) @ ''-'' @ zero_padded 2 (nat m) @ ''-'' @ zero_padded 2 (nat d))"

text \<open>
  \<open>pd.to_datetime\<close> of a text. A text \<open>YYYY-MM-DD\<close> that names a day of the calendar
  (\<open>is_date_text\<close>) is read as the midnight of that day, and the call raises
  \<open>OutOfBoundsDatetime\<close> unless this midnight is a time stamp: the first midnight within
  the range is that of 1677-09-22, the last that of 2262-04-11.
\<close>

definition to_datetime_ymd :: "string \<Rightarrow> int \<times> int \<times> int" where
  "to_datetime_ymd s =
     (int (decimal (take 4 s)), int (decimal (take 2 (drop 5 s))),
      int (decimal (take 2 (drop 8 s))))"

definition is_date_text :: "string \<Rightarrow> bool" where
  "is_date_text s =
     (length s = 10 \<and> list_all is_digit (take 4 s) \<and> s ! 4 = CHR ''-''
      \<and> list_all is_digit (take 2 (drop 5 s)) \<and> s ! 7 = CHR ''-''
      \<and> list_all is_digit (take 2 (drop 8 s))
      \<and> (case to_datetime_ymd s of (y, m, d) \<Rightarrow>
            1 \<le> y \<and> 1 \<le> m \<and> m \<le> 12 \<and> 1 \<le> d \<and> d \<le> month_lengths y ! nat (m - 1)))"

definition midnight_in_bounds :: "int \<times> int \<times> int \<Rightarrow> bool" where
  "midnight_in_bounds ymd =
     (case ymd of (y, m, d) \<Rightarrow>
        (1677 < y \<or> y = 1677 \<and> (9 < m \<or> m = 9 \<and> 22 \<le> d))
        \<and> (y < 2262 \<or> y = 2262 \<and> (m < 4 \<or> m = 4 \<and> d \<le> 11)))"

text \<open>
  The day of a ride, as the text that is the grouping key: \<open>strftime("%Y-%m-%d")\<close> of
  its time stamp.
\<close>

definition date_of :: "int \<Rightarrow> string" where
  "date_of created = strftime_ymd (civil_from_days (created div 86400))"

text \<open>\<open>dt.weekday\<close> counts from Monday as 0; day 0, 1970-01-01, was a Thursday.\<close>

definition weekday_of :: "int \<times> int \<times> int \<Rightarrow> int" where
  "weekday_of ymd = (days_from_civil ymd + 3) mod 7"

definition day_names :: "string list" where
  "day_names = [''Monday'', ''Tuesday'', ''Wednesday'', ''Thursday'', ''Friday'',
                ''Saturday'', ''Sunday'']"

definition month_abbr :: "string list" where
  "month_abbr = ['''', ''Jan'', ''Feb'', ''Mar'', ''Apr'', ''May'', ''Jun'', ''Jul'', ''Aug'',
                 ''Sep'', ''Oct'', ''Nov'', ''Dec'']"

subsection \<open>Ride counts\<close>

text \<open>
  \<open>groupby(['date'], sort=False)['date'].count()\<close>: one entry for each key, in the
  order in which the keys first appear, with the number of rows that have the key.
\<close>

fun groupby_count :: "'k list \<Rightarrow> ('k \<times> nat) list" where
  "groupby_count [] = []"
| "groupby_count (k # ks) =
     (k, Suc (length (filter (\<lambda>x. x = k) ks))) # groupby_count (filter (\<lambda>x. x \<noteq> k) ks)"

text \<open>\<open>sort_index(ascending=False)\<close>: the entries ordered by key, largest first.\<close>

definition sort_index_descending :: "('k::linorder \<times> 'v) list \<Rightarrow> ('k \<times> 'v) list" where
  "sort_index_descending entries = rev (sort_key fst entries)"

text \<open>
  \<open>pd.to_datetime(df['created'], unit="s")\<close>: a column of seconds within the range
  becomes the column of their time stamps. With a value outside the range the answer is
  the parameter's: the call raises, or each row gets a time stamp or none (\<open>NaT\<close>,
  written \<open>None\<close>). As pandas holds no time stamp outside the range, such a value in the
  parameter's answer stands for \<open>NaT\<close>.
\<close>

definition to_datetime_s :: "('r, 't) api \<Rightarrow> int list \<Rightarrow> exn + int option list" where
  "to_datetime_s w col =
     (if list_all in_bounds col then Inr (map Some col)
      else (case to_datetime_beyond w col of
              Inl e \<Rightarrow> Inl e
            | Inr stamps \<Rightarrow>
                Inr (map (\<lambda>v. case v of
                                None \<Rightarrow> None
                              | Some s \<Rightarrow> if in_bounds s then Some s else None) stamps)))"

text \<open>The values of a column that are there; \<open>groupby\<close> leaves out a row without key.\<close>

definition present :: "'a option list \<Rightarrow> 'a list" where
  "present col = concat (map (\<lambda>v. case v of None \<Rightarrow> [] | Some x \<Rightarrow> [x]) col)"

text \<open>
  Lines 98 and 99 of region.py. A frame without rows has no column \<open>created\<close>, and
  selecting it raises \<open>KeyError\<close>. The result stands for \<open>t_df\<close>, with the columns
  \<open>date\<close> and \<open>rides\<close>.
\<close>

definition ridecount_table :: "('r, 't) api \<Rightarrow> int list \<Rightarrow> exn + (string \<times> nat) list" where
  "ridecount_table w df =
     (if df = [] then Inl KeyError
      else (case to_datetime_s w df of
              Inl e \<Rightarrow> Inl e
            | Inr stamps \<Rightarrow>
                Inr (sort_index_descending (groupby_count (map date_of (present stamps))))))"

text \<open>
  \<open>__enrich_ridecounts\<close> (region.py, lines 42 to 61). Line 53 reads the texts of the
  \<open>date\<close> column back as dates and raises \<open>OutOfBoundsDatetime\<close> when the midnight of
  one of them is no time stamp; the other columns are derived from the date, row by row.
  What the function does with a column that has a text of another form is the parameter's
  answer.
\<close>

definition enrich_row :: "string \<times> nat \<Rightarrow> ridecount" where
  "enrich_row entry =
     (let ymd = to_datetime_ymd (fst entry)
      in \<lparr>date = ymd, rides = snd entry,
          year = fst ymd, month = fst (snd ymd), day = snd (snd ymd),
          weekday_num = weekday_of ymd,
          weekday = day_names ! nat (weekday_of ymd),
          month_name = month_abbr ! nat (fst (snd ymd))\<rparr>)"

definition enrich_ridecounts ::
  "('r, 't) api \<Rightarrow> (string \<times> nat) list \<Rightarrow> exn + ridecount list" where
  "enrich_ridecounts w df =
     (if list_all (\<lambda>row. is_date_text (fst row)) df
      then (if list_all (\<lambda>row. midnight_in_bounds (to_datetime_ymd (fst row))) df
            then Inr (map enrich_row df)
            else Inl OutOfBoundsDatetime)
      else enrich_other w df)"

section \<open>Paginated fetchers\<close>

text \<open>
  The loop of \<open>get_region_ridecounts\<close> (region.py, lines 87 to 95), with its variables
  \<open>page_number\<close>, \<open>enumerated_results\<close> and \<open>dfs\<close> as arguments.
\<close>

function ridecounts_loop ::
  "('r, 't) api \<Rightarrow> int \<Rightarrow> int \<Rightarrow> nat \<Rightarrow> int \<Rightarrow> int list list \<Rightarrow> state
   \<Rightarrow> state \<times> (exn + int list list)" where
  "ridecounts_loop w region_id total_ridelogs page_number enumerated_results dfs st =
     (if enumerated_results < total_ridelogs then
        (case fetch (Ridelogs ''created'' region_id 500 page_number)
                (ridelog_created w region_id 500 page_number) st of
           (st', Inl e) \<Rightarrow> (st', Inl e)
         | (st', Inr url_json_data) \<Rightarrow>
             ridecounts_loop w region_id total_ridelogs (page_number + 1)
               (enumerated_results + 500) (dfs @ [url_json_data]) st')
      else (st, Inr dfs))"
  by pat_completeness auto
termination
  by (relation "measure (\<lambda>(w, region_id, total_ridelogs, page_number, enumerated_results, dfs, st).
        nat (total_ridelogs - enumerated_results))") auto

declare ridecounts_loop.simps [simp del]

text \<open>\<open>get_region_ridecounts\<close> (region.py, lines 64 to 100), after its authentication gate.\<close>

definition get_region_ridecounts ::
  "('r, 't) api \<Rightarrow> string \<Rightarrow> state \<Rightarrow> state \<times> (exn + ridecount list)" where
  "get_region_ridecounts w region_name =
     then_do (check_region w region_name)
       (\<lambda>_. then_do (get_region_id_by_alias w region_name)
         (\<lambda>region_id. then_do (get_region_info w region_name)
           (\<lambda>region_info. then_do (ridecounts_loop w region_id (ridden region_info) 0 0 [])
             (\<lambda>dfs. then_do (lift (pd_concat dfs))
               (\<lambda>df. then_do (lift (ridecount_table w df))
                 (\<lambda>t_df. lift (enrich_ridecounts w t_df)))))))"

text \<open>\<open>get_all_region_trails\<close> (region.py, lines 119 to 146): a single request.\<close>

definition get_all_region_trails ::
  "('r, 't) api \<Rightarrow> string \<Rightarrow> state \<Rightarrow> state \<times> (exn + 't list)" where
  "get_all_region_trails w region_name =
     then_do (check_region w region_name)
       (\<lambda>_. then_do (get_region_id_by_alias w region_name)
         (\<lambda>region_id. fetch (Trails region_id 100) (trail_rows w region_id 100)))"

text \<open>
  The loop of \<open>get_all_region_ridelogs\<close> (region.py, lines 177 to 184) over the values
  of \<open>range(0, pages)\<close>; the loop variable is not read, \<open>page_number\<close> is counted
  beside it.
\<close>

fun ridelogs_loop ::
  "('r, 't) api \<Rightarrow> int \<Rightarrow> int list \<Rightarrow> nat \<Rightarrow> 'r list list \<Rightarrow> state
   \<Rightarrow> state \<times> (exn + 'r list list)" where
  "ridelogs_loop w region_id [] page_number dfs st = (st, Inr dfs)"
| "ridelogs_loop w region_id (i # rest) page_number dfs st =
     (case fetch (Ridelogs ''note,created,location_name,location_id,year,device_name,username''
                    region_id 100 page_number)
             (ridelog_rows w region_id 100 page_number) st of
        (st', Inl e) \<Rightarrow> (st', Inl e)
      | (st', Inr url_json_data) \<Rightarrow>
          ridelogs_loop w region_id rest (page_number + 1) (dfs @ [url_json_data]) st')"

text \<open>
  \<open>get_all_region_ridelogs\<close> (region.py, lines 148 to 188), after its authentication
  gate. \<open>range(0, pages)\<close> is the list of the integers from 0 to \<open>pages - 1\<close>, empty
  when \<open>pages\<close> is not positive.
\<close>

definition get_all_region_ridelogs ::
  "('r, 't) api \<Rightarrow> string \<Rightarrow> int \<Rightarrow> state \<Rightarrow> state \<times> (exn + ('r \<times> string) list)" where
  "get_all_region_ridelogs w region_name pages =
     then_do (check_region w region_name)
       (\<lambda>_. then_do (get_region_id_by_alias w region_name)
         (\<lambda>region_id. then_do (ridelogs_loop w region_id [0..pages - 1] 0 [])
           (\<lambda>dfs. then_do (lift (pd_concat dfs))
             (\<lambda>final_df. lift (add_date_column w final_df)))))"

text \<open>
  The loop of \<open>get_all_trailforks_regions\<close> (region.py, lines 262 to 273); the progress
  bar is left out.
\<close>

function regions_loop ::
  "('r, 't) api \<Rightarrow> nat \<Rightarrow> int \<Rightarrow> region list list \<Rightarrow> state
   \<Rightarrow> state \<times> (exn + region list list)" where
  "regions_loop w page_number enumerated_results dfs st =
     (if enumerated_results \<le> 40000 then
        (case fetch (RegionsPage 500 page_number) (region_rows w 500 page_number) st of
           (st', Inl e) \<Rightarrow> (st', Inl e)
         | (st', Inr t_json_data) \<Rightarrow>
             regions_loop w (page_number + 1) (enumerated_results + 500)
               (dfs @ [t_json_data]) st')
      else (st, Inr dfs))"
  by pat_completeness auto
termination
  by (relation "measure (\<lambda>(w, page_number, enumerated_results, dfs, st).
        nat (40001 - enumerated_results))") auto

declare regions_loop.simps [simp del]

text \<open>
  \<open>get_all_trailforks_regions\<close> (region.py, lines 246 to 277), after its
  authentication gate.
\<close>

definition get_all_trailforks_regions ::
  "('r, 't) api \<Rightarrow> state \<Rightarrow> state \<times> (exn + region list)" where
  "get_all_trailforks_regions w =
     then_do (regions_loop w 0 0 []) (\<lambda>dfs. lift (pd_concat dfs))"

section \<open>User scraper: requests and files\<close>

text \<open>
  What lies outside \<open>trailforks_user.py\<close>: the outcome of the GET of the rescan page
  of a ride id and of the user's ridelog page (\<open>Inl\<close> when \<open>requests.get\<close> raises,
  otherwise the text of the page); the first table that \<open>pd.read_html\<close> finds in a text
  (\<open>ValueError\<close> when it finds none); for the first table that BeautifulSoup finds in a
  text, the \<open>href\<close> of the first anchor of each of its cells, in document order
  (\<open>None\<close> for a text without table, and for a cell without anchor or \<open>href\<close>); and
  the order in which Python lists a set of links.
\<close>

record 'row web =
  rescan_page :: "string \<Rightarrow> exn + string"
  ridelog_page :: "string \<Rightarrow> exn + string"
  read_html :: "string \<Rightarrow> exn + 'row list"
  table_cell_hrefs :: "string \<Rightarrow> string option list option"
  list_of_set :: "string list \<Rightarrow> string list"

text \<open>
  The loop of \<open>rescan_ridelogs_for_badges\<close> (trailforks\_user.py, lines 50 to 57): the
  first request that raises ends it.
\<close>

fun rescan_loop :: "'row web \<Rightarrow> string list \<Rightarrow> state \<Rightarrow> state \<times> (exn + unit)" where
  "rescan_loop site [] st = (st, Inr ())"
| "rescan_loop site (ride_id # ride_ids) st =
     (case http_get (RescanBadges (strip ride_id)) (rescan_page site (strip ride_id)) st of
        (st', Inl e) \<Rightarrow> (st', Inl e)
      | (st', Inr r) \<Rightarrow> rescan_loop site ride_ids st')"

text \<open>
  \<open>rescan_ridelogs_for_badges\<close> (trailforks\_user.py, lines 37 to 61): \<open>True\<close> after the
  loop, \<open>False\<close> from the handler of any exception. The ids are strings; the printing
  of the exception is left out.
\<close>

definition rescan_ridelogs_for_badges ::
  "'row web \<Rightarrow> string list \<Rightarrow> state \<Rightarrow> state \<times> bool" where
  "rescan_ridelogs_for_badges site ride_ids st =
     (case rescan_loop site ride_ids st of
        (st', Inr _) \<Rightarrow> (st', True)
      | (st', Inl e) \<Rightarrow> (st', False))"

text \<open>\<open>needle in s\<close> for strings.\<close>

fun contains :: "string \<Rightarrow> string \<Rightarrow> bool" where
  "contains needle [] = (needle = [])"
| "contains needle (c # cs) = (take (length needle) (c # cs) = needle \<or> contains needle cs)"

text \<open>
  \<open>__get_ridelog_links\<close> (trailforks\_user.py, lines 80 to 103). Without a table,
  \<open>table.findAll\<close> raises \<open>AttributeError\<close>; a cell without anchor or \<open>href\<close> is
  passed over.
\<close>

definition get_ridelog_links :: "'row web \<Rightarrow> string \<Rightarrow> exn + string list" where
  "get_ridelog_links site html_data =
     (case table_cell_hrefs site html_data of
        None \<Rightarrow> Inl AttributeError
      | Some cells \<Rightarrow>
          Inr (list_of_set site
                 (filter (\<lambda>link. contains ''ridelog/view'' link \<and> \<not> contains ''achievements'' link)
                    (List.map_filter id cells))))"

text \<open>
  \<open>df[name] = values\<close> for a list of values: \<open>ValueError\<close> unless there is one value
  for each row.
\<close>

definition set_column :: "'a list \<Rightarrow> 'b list \<Rightarrow> exn + ('a \<times> 'b) list" where
  "set_column df vals = (if length vals = length df then Inr (zip df vals) else Inl ValueError)"

text \<open>
  \<open>get_user_all_ridelogs\<close> (trailforks\_user.py, lines 63 to 78), for the user name of
  the client.
\<close>

definition get_user_all_ridelogs ::
  "'row web \<Rightarrow> string \<Rightarrow> state \<Rightarrow> state \<times> (exn + (('row \<times> string) \<times> string) list)" where
  "get_user_all_ridelogs site username =
     then_do (http_get (ProfileRidelog username) (ridelog_page site username))
       (\<lambda>r_text. then_do (lift (read_html site r_text))
         (\<lambda>df. then_do (write_file ''data.html'' r_text)
           (\<lambda>_. then_do (lift (get_ridelog_links site r_text))
             (\<lambda>links. then_do (lift (set_column df links))
               (\<lambda>df1. lift (set_column df1 (parse_ride_ids (map snd df1))))))))"

section \<open>Notions used in the statements\<close>

text \<open>The requests issued between a state and a later one.\<close>

definition issued :: "state \<Rightarrow> state \<Rightarrow> request list" where
  "issued st st' = drop (length (requests st)) (requests st')"

text \<open>The number of pages of 500 rows that cover a total: the least \<open>n\<close> with \<open>total \<le> 500 n\<close>.\<close>

definition pages_needed :: "int \<Rightarrow> nat" where
  "pages_needed total_ridelogs = nat ((total_ridelogs + 499) div 500)"

text \<open>
  A page is good when its request is answered and the status of the answer is not 401;
  otherwise the fetch of the page raises \<open>page_error\<close>.
\<close>

definition page_ok :: "exn + 'd response \<Rightarrow> bool" where
  "page_ok answer = (case answer of Inl e \<Rightarrow> False | Inr r \<Rightarrow> status_code r \<noteq> 401)"

definition page_error :: "exn + 'd response \<Rightarrow> exn" where
  "page_error answer =
     (case answer of Inl e \<Rightarrow> e | Inr r \<Rightarrow> RegionLockedAPI (''[!] Error: '' @ message r))"

definition page_data :: "exn + 'd response \<Rightarrow> 'd" where
  "page_data answer = (case answer of Inr r \<Rightarrow> data r)"

text \<open>
  The fetch of the pages of a list, one after the other, until one raises: the common
  shape of the three loops.
\<close>

fun fetch_pages ::
  "(nat \<Rightarrow> request) \<Rightarrow> (nat \<Rightarrow> exn + 'd response) \<Rightarrow> nat list \<Rightarrow> 'd list \<Rightarrow> state
   \<Rightarrow> state \<times> (exn + 'd list)" where
  "fetch_pages mk answer [] dfs st = (st, Inr dfs)"
| "fetch_pages mk answer (p # ps) dfs st =
     (case fetch (mk p) (answer p) st of
        (st', Inl e) \<Rightarrow> (st', Inl e)
      | (st', Inr d) \<Rightarrow> fetch_pages mk answer ps (dfs @ [d]) st')"

text \<open>The request for the rescan of a ride id completes: it does not raise.\<close>

definition completes :: "'row web \<Rightarrow> string \<Rightarrow> bool" where
  "completes site ride_id =
     (case rescan_page site (strip ride_id) of Inl e \<Rightarrow> False | Inr r \<Rightarrow> True)"

text \<open>The region id that the data file gives for an alias, or the \<open>ValueError\<close> of \<open>.item()\<close>.\<close>

definition region_id_of :: "('r, 't) api \<Rightarrow> string \<Rightarrow> exn + int" where
  "region_id_of w region_alias =
     (case filter (\<lambda>row. fst row = region_alias) (region_data_file w) of
        [row] \<Rightarrow> Inr (snd row)
      | _ \<Rightarrow> Inl ValueError)"

text \<open>
  A valid region: the query by alias returns at least one record, and the data file gives
  the alias exactly one id.
\<close>

definition region_known :: "('r, 't) api \<Rightarrow> string \<Rightarrow> int \<Rightarrow> bool" where
  "region_known w region_name region_id =
     ((case regions_by_alias w region_name of Inl e \<Rightarrow> False | Inr recs \<Rightarrow> recs \<noteq> [])
      \<and> region_id_of w region_name = Inr region_id)"

text \<open>The field list of the ride-log requests of \<open>get_all_region_ridelogs\<close>.\<close>

definition ridelog_fields :: string where
  "ridelog_fields = ''note,created,location_name,location_id,year,device_name,username''"

text \<open>One civil date lies before another.\<close>

definition earlier :: "int \<times> int \<times> int \<Rightarrow> int \<times> int \<times> int \<Rightarrow> bool" where
  "earlier a b =
     (case a of (y, m, d) \<Rightarrow> case b of (y', m', d') \<Rightarrow>
        y < y' \<or> y = y' \<and> (m < m' \<or> m = m' \<and> d < d'))"

section \<open>Example surroundings\<close>

text \<open>
  A small world on which the statements are tried: one region, \<open>lebanon-hills\<close> with
  the id 3112, for which 1200 rides are reported; ride logs on three pages.
\<close>

definition ok_response :: "'d \<Rightarrow> exn + 'd response" where
  "ok_response d = Inr \<lparr>status_code = 200, message = ''ok'', data = d\<rparr>"

definition locked_response :: "'d \<Rightarrow> exn + 'd response" where
  "locked_response d = Inr \<lparr>status_code = 401, message = ''Unauthorized'', data = d\<rparr>"

definition demo_api :: "(string, string) api" where
  "demo_api =
     \<lparr>regions_by_alias =
        (\<lambda>a. if a = ''lebanon-hills''
             then Inr [\<lparr>rid = 3112, title = ''Lebanon Hills'', alias_name = ''lebanon-hills''\<rparr>]
             else Inr []),
      region_by_id = (\<lambda>i. ok_response \<lparr>ridden = 1200\<rparr>),
      ridelog_created =
        (\<lambda>i rows page. ok_response
           (if page = 0 then [1660435200, 1660348800]
            else if page = 1 then [1660500000] else [])),
      ridelog_rows =
        (\<lambda>i rows page. ok_response
           (if page = 0 then [''ride a'', ''ride b'']
            else if page = 1 then [] else [''ride c''])),
      trail_rows = (\<lambda>i rows. ok_response [''trail'']),
      region_rows = (\<lambda>rows page. ok_response []),
      region_data_file = [(''lebanon-hills'', 3112), (''buck-hill-52165'', 52165)],
      add_date_column = (\<lambda>rows. Inr (map (\<lambda>r. (r, ''08/14/2022'')) rows)),
      to_datetime_beyond = (\<lambda>col. Inl OutOfBoundsDatetime),
      enrich_other = (\<lambda>df. Inl ValueError)\<rparr>"

text \<open>The same world with every page after the first answered by status 401.\<close>

definition locked_api :: "(string, string) api" where
  "locked_api =
     demo_api
       \<lparr>ridelog_created :=
          (\<lambda>i rows page. if page = 0 then ok_response [1660435200] else locked_response []),
        ridelog_rows :=
          (\<lambda>i rows page. if page = 0 then ok_response [''ride a''] else locked_response []),
        trail_rows := (\<lambda>i rows. locked_response []),
        region_rows :=
          (\<lambda>rows page. if page = 0 then ok_response [] else locked_response [])\<rparr>"

text \<open>The same world with no ride reported for the region.\<close>

definition quiet_api :: "(string, string) api" where
  "quiet_api = demo_api\<lparr>region_by_id := (\<lambda>i. ok_response \<lparr>ridden = 0\<rparr>)\<rparr>"

definition start :: state where
  "start = \<lparr>requests = [], files = (\<lambda>name. None)\<rparr>"

text \<open>
  A site where the rescan of ride \<open>2\<close> raises, and whose ridelog page has a table for
  the user \<open>rider\<close> only.
\<close>

definition demo_web :: "string web" where
  "demo_web =
     \<lparr>rescan_page = (\<lambda>i. if i = ''2'' then Inl TransportError else Inr ''done''),
      ridelog_page = (\<lambda>u. if u = ''rider'' then Inr ''<table>rides</table>'' else Inr ''<p>no rides</p>''),
      read_html = (\<lambda>t. if t = ''<table>rides</table>'' then Inr [''row 1''] else Inl ValueError),
      table_cell_hrefs =
        (\<lambda>t. if t = ''<table>rides</table>''
             then Some [None, Some ''/ridelog/view/20367890/''] else None),
      list_of_set = remdups\<rparr>"

section \<open>Properties\<close>

subsection \<open>Location parsing\<close>

lemma unpack2_Inl: "(\<exists>e. unpack2 xs = Inl e) \<longleftrightarrow> length xs \<noteq> 2"
  by (induction xs rule: unpack2.induct) auto

lemma unpack3_Inl: "(\<exists>e. unpack3 xs = Inl e) \<longleftrightarrow> length xs \<noteq> 3"
  by (induction xs rule: unpack3.induct) auto

text \<open>
  Claim C1. The location rules: no location element gives the three defaults; a
  stripped text with one comma gives the two stripped parts and the country
  \<open>USA\<close>; with two commas it gives the stripped first part, the state \<open>unknown\<close>
  (the middle part is dropped) and the stripped third part; with any other number of
  commas both unpackings raise, the state is the stripped text and city and country keep
  the default \<open>unknown\<close>.
\<close>

theorem location_parsing_rules:
  "get_user_city_state_country None = (''unknown'', ''unknown'', ''unknown'')
   \<and> (\<forall>location a b. split CHR '','' (strip location) = [a, b] \<longrightarrow>
         get_user_city_state_country (Some location) = (strip a, strip b, ''USA''))
   \<and> (\<forall>location a b c. split CHR '','' (strip location) = [a, b, c] \<longrightarrow>
         get_user_city_state_country (Some location) = (strip a, ''unknown'', strip c))
   \<and> (\<forall>location. length (split CHR '','' (strip location)) \<noteq> 2
          \<and> length (split CHR '','' (strip location)) \<noteq> 3 \<longrightarrow>
         get_user_city_state_country (Some location) = (''unknown'', strip location, ''unknown''))"
proof (intro conjI allI impI)
  show "get_user_city_state_country None = (''unknown'', ''unknown'', ''unknown'')"
    by (simp add: get_user_city_state_country_def)
next
  fix location a b
  assume "split CHR '','' (strip location) = [a, b]"
  then show "get_user_city_state_country (Some location) = (strip a, strip b, ''USA'')"
    by (simp add: get_user_city_state_country_def)
next
  fix location a b c
  assume "split CHR '','' (strip location) = [a, b, c]"
  then show "get_user_city_state_country (Some location) = (strip a, ''unknown'', strip c)"
    by (simp add: get_user_city_state_country_def)
next
  fix location
  assume len: "length (split CHR '','' (strip location)) \<noteq> 2
     \<and> length (split CHR '','' (strip location)) \<noteq> 3"
  from len obtain e2 where e2: "unpack2 (split CHR '','' (strip location)) = Inl e2"
    using unpack2_Inl by blast
  from len obtain e3 where e3: "unpack3 (split CHR '','' (strip location)) = Inl e3"
    using unpack3_Inl by blast
  show "get_user_city_state_country (Some location) = (''unknown'', strip location, ''unknown'')"
    by (simp add: get_user_city_state_country_def e2 e3)
qed

text \<open>The rules at a text with one comma, with two commas and with none.\<close>

theorem location_parsing_rules_witness:
  "get_user_city_state_country (Some ''Minneapolis, MN'') = (''Minneapolis'', ''MN'', ''USA'')
   \<and> get_user_city_state_country (Some ''Minneapolis, MN, Canada'')
       = (''Minneapolis'', ''unknown'', ''Canada'')
   \<and> get_user_city_state_country (Some '' Earth '') = (''unknown'', ''Earth'', ''unknown'')"
proof -
  have s: "strip ''Minneapolis, MN'' = ''Minneapolis, MN''"
    "strip ''Minneapolis, MN, Canada'' = ''Minneapolis, MN, Canada''"
    "strip '' Earth '' = ''Earth''" "strip ''Minneapolis'' = ''Minneapolis''"
    "strip '' MN'' = ''MN''" "strip '' Canada'' = ''Canada''"
    by (simp_all add: strip_def py_isspace_def)
  have two: "split CHR '','' (strip ''Minneapolis, MN'') = [''Minneapolis'', '' MN'']"
    by (simp add: s)
  have three: "split CHR '','' (strip ''Minneapolis, MN, Canada'')
      = [''Minneapolis'', '' MN'', '' Canada'']"
    by (simp add: s)
  have one: "length (split CHR '','' (strip '' Earth '')) \<noteq> 2
     \<and> length (split CHR '','' (strip '' Earth '')) \<noteq> 3"
    by (simp add: s)
  note r2 = location_parsing_rules [THEN conjunct2, THEN conjunct1, rule_format, OF two]
  note r3 = location_parsing_rules [THEN conjunct2, THEN conjunct2, THEN conjunct1, rule_format,
      OF three]
  note r1 = location_parsing_rules [THEN conjunct2, THEN conjunct2, THEN conjunct2, rule_format,
      OF one]
  from r1 r2 r3 show ?thesis
    by (simp only: s simp_thms)
qed

subsection \<open>Ride ids\<close>

lemma decompose_14:
  "s = take 5 s @ take 8 (drop 5 s) @ take 1 (drop 13 s) @ drop 14 s"
proof -
  have a: "take 1 (drop 13 s) @ drop 14 s = drop 13 s"
    using append_take_drop_id [of 1 "drop 13 s"] by simp
  have b: "take 8 (drop 5 s) @ drop 13 s = drop 5 s"
    using append_take_drop_id [of 8 "drop 5 s"] by simp
  have "take 5 s @ drop 5 s = s" by (rule append_take_drop_id)
  with a b show ?thesis by simp
qed

lemma match_here_SomeD:
  assumes "match_here s = Some g"
  shows "length g = 8 \<and> list_all is_digit g
    \<and> (s = ''view/'' @ g @ ''/'' \<or> s = ''view/'' @ g @ ''/'' @ [CHR 0x0A])"
proof -
  from assms have c: "take 5 s = ''view/''" "length (take 8 (drop 5 s)) = 8"
    "list_all is_digit (take 8 (drop 5 s))" "take 1 (drop 13 s) = ''/''"
    "at_dollar (drop 14 s)" and g: "g = take 8 (drop 5 s)"
    by (auto simp: match_here_def split: if_splits)
  have "s = ''view/'' @ g @ ''/'' @ drop 14 s"
    using decompose_14 [of s] c(1) c(4) g by simp
  with c(5) have "s = ''view/'' @ g @ ''/'' \<or> s = ''view/'' @ g @ ''/'' @ [CHR 0x0A]"
    unfolding at_dollar_def by auto
  with c g show ?thesis by simp
qed

lemma match_here_SomeI:
  assumes "length g = 8" "list_all is_digit g"
    and "s = ''view/'' @ g @ ''/'' \<or> s = ''view/'' @ g @ ''/'' @ [CHR 0x0A]"
  shows "match_here s = Some g"
  using assms by (auto simp: match_here_def at_dollar_def)

lemma re_search_SomeD:
  "re_search s = Some g \<Longrightarrow> \<exists>pre suf. s = pre @ suf \<and> match_here suf = Some g"
proof (induction s)
  case Nil
  then show ?case by simp
next
  case (Cons c cs)
  show ?case
  proof (cases "match_here (c # cs)")
    case (Some g')
    with Cons.prems have "match_here (c # cs) = Some g" by simp
    then have "c # cs = [] @ (c # cs) \<and> match_here (c # cs) = Some g" by simp
    then show ?thesis by blast
  next
    case None
    with Cons.prems have "re_search cs = Some g" by simp
    then obtain pre suf where "cs = pre @ suf" "match_here suf = Some g"
      using Cons.IH by blast
    then have "c # cs = (c # pre) @ suf \<and> match_here suf = Some g" by simp
    then show ?thesis by blast
  qed
qed

lemma match_here_length:
  "match_here s = Some g \<Longrightarrow>
     (length s = 14 \<and> last s = CHR ''/'') \<or> (length s = 15 \<and> last s = CHR 0x0A)"
  by (auto dest!: match_here_SomeD)

lemma match_here_unique_position:
  assumes "match_here suf = Some g" "pre \<noteq> []"
  shows "match_here (pre @ suf) = None"
proof (rule ccontr)
  assume "match_here (pre @ suf) \<noteq> None"
  then obtain g' where g': "match_here (pre @ suf) = Some g'" by auto
  from assms(2) have pre: "1 \<le> length pre" by (cases pre) simp_all
  from match_here_length [OF assms(1)] have suf: "14 \<le> length suf" by auto
  from match_here_length [OF g'] have "length pre + length suf \<le> 15" by auto
  with pre suf have len: "length suf = 14" "length (pre @ suf) = 15" by simp_all
  from len(1) have ne: "suf \<noteq> []" by auto
  from match_here_length [OF assms(1)] len(1) have "last suf = CHR ''/''" by simp
  moreover from match_here_length [OF g'] len(2) have "last (pre @ suf) = CHR 0x0A" by simp
  ultimately show False using ne by simp
qed

lemma re_search_SomeI:
  "match_here suf = Some g \<Longrightarrow> re_search (pre @ suf) = Some g"
proof (induction pre)
  case Nil
  then show ?case by (cases suf) auto
next
  case (Cons c pre)
  from match_here_unique_position [OF Cons.prems, of "c # pre"]
  have "match_here (c # pre @ suf) = None" by simp
  with Cons show ?case by simp
qed

lemma re_search_Some:
  "re_search link = Some g \<longleftrightarrow>
     length g = 8 \<and> list_all is_digit g
     \<and> (\<exists>pre. link = pre @ ''view/'' @ g @ ''/'' \<or> link = pre @ ''view/'' @ g @ ''/'' @ [CHR 0x0A])"
  (is "?L \<longleftrightarrow> ?R")
proof
  assume ?L
  then obtain pre suf where "link = pre @ suf" "match_here suf = Some g"
    using re_search_SomeD by blast
  with match_here_SomeD [of suf g] show ?R by auto
next
  assume r: ?R
  then obtain pre where
    "link = pre @ ''view/'' @ g @ ''/'' \<or> link = pre @ ''view/'' @ g @ ''/'' @ [CHR 0x0A]"
    by blast
  then show ?L
  proof
    assume l: "link = pre @ ''view/'' @ g @ ''/''"
    from r have "match_here (''view/'' @ g @ ''/'') = Some g"
      by (intro match_here_SomeI) auto
    from re_search_SomeI [OF this, of pre] l show ?L by simp
  next
    assume l: "link = pre @ ''view/'' @ g @ ''/'' @ [CHR 0x0A]"
    from r have "match_here (''view/'' @ g @ ''/'' @ [CHR 0x0A]) = Some g"
      by (intro match_here_SomeI) auto
    from re_search_SomeI [OF this, of pre] l show ?L by simp
  qed
qed

lemma parse_ride_ids_map_filter:
  "parse_ride_ids links = List.map_filter re_search links"
  by (induction links) (auto simp: List.map_filter_simps split: option.splits)

lemma length_parse_ride_ids: "length (parse_ride_ids links) \<le> length links"
  by (induction links) (auto split: option.splits)

text \<open>
  Claim C5, as amended. The ids are, in the order of the links, the groups captured in
  the links where the pattern is found, so the list of ids can be shorter than the list of
  links; the pattern is found exactly in a link that ends with \<open>view/\<close>, eight digits and a
  slash, or with these followed by one final newline, which Python's \<open>$\<close> allows.
\<close>

theorem parse_ride_ids_rule:
  "parse_ride_ids links = List.map_filter re_search links
   \<and> length (parse_ride_ids links) \<le> length links
   \<and> (\<forall>link g. re_search link = Some g \<longleftrightarrow>
          length g = 8 \<and> list_all is_digit g
          \<and> (\<exists>pre. link = pre @ ''view/'' @ g @ ''/''
                  \<or> link = pre @ ''view/'' @ g @ ''/'' @ [CHR 0x0A]))"
  using parse_ride_ids_map_filter length_parse_ride_ids re_search_Some by blast

text \<open>
  The rule at four links: one with an id, one without digits, one with nine digits and one
  with an id before a final newline.
\<close>

theorem parse_ride_ids_rule_witness:
  "parse_ride_ids [''https://www.trailforks.com/ridelog/view/20367890/'',
                   ''https://www.trailforks.com/ridelog/view/abc/'',
                   ''/ridelog/view/123456789/'',
                   ''/ridelog/view/20367891/'' @ [CHR 0x0A]]
     = [''20367890'', ''20367891'']"
proof -
  have "List.map_filter re_search
          [''https://www.trailforks.com/ridelog/view/20367890/'',
           ''https://www.trailforks.com/ridelog/view/abc/'',
           ''/ridelog/view/123456789/'',
           ''/ridelog/view/20367891/'' @ [CHR 0x0A]]
        = [''20367890'', ''20367891'']"
    by (simp add: match_here_def is_digit_def at_dollar_def)
  with parse_ride_ids_rule [THEN conjunct1] show ?thesis by (simp only:)
qed

text \<open>
  The claim as worded fails at a link whose slash is followed by a newline: the code
  returns its id, the worded rule drops the link.
\<close>

theorem parse_ride_ids_newline_counterexample:
  "parse_ride_ids [''/ridelog/view/20367891/'' @ [CHR 0x0A]]
     \<noteq> List.map_filter claimed_ride_id [''/ridelog/view/20367891/'' @ [CHR 0x0A]]"
  by (simp add: match_here_def is_digit_def at_dollar_def claimed_ride_id_def)

subsection \<open>The loops as fetches of a list of pages\<close>

lemma fetch_eq:
  "fetch req answer st =
     (st\<lparr>requests := requests st @ [req]\<rparr>,
      if page_ok answer then Inr (page_data answer) else Inl (page_error answer))"
  by (cases answer)
     (simp_all add: fetch_def then_do_def http_get_def handle_status_code_def raise_def
        return_def page_ok_def page_data_def page_error_def)

lemma fetch_pages_closed:
  "fetch_pages mk answer ps dfs st =
     (case dropWhile (\<lambda>p. page_ok (answer p)) ps of
        [] \<Rightarrow> (st\<lparr>requests := requests st @ map mk ps\<rparr>,
               Inr (dfs @ map (\<lambda>p. page_data (answer p)) ps))
      | p # _ \<Rightarrow>
          (st\<lparr>requests := requests st @ map mk (takeWhile (\<lambda>p. page_ok (answer p)) ps @ [p])\<rparr>,
           Inl (page_error (answer p))))"
proof (induction ps arbitrary: dfs st)
  case Nil
  show ?case by simp
next
  case (Cons p ps)
  show ?case
  proof (cases "page_ok (answer p)")
    case True
    show ?thesis
    proof (cases "dropWhile (\<lambda>p. page_ok (answer p)) ps")
      case Nil
      from True show ?thesis by (simp add: fetch_eq Cons.IH Nil)
    next
      case (Cons q qs)
      from True show ?thesis by (simp add: fetch_eq Cons.IH Cons)
    qed
  next
    case False
    then show ?thesis by (simp add: fetch_eq)
  qed
qed

lemma div_500_step: "(x + 500) div 500 = x div 500 + (1::int)"
  by simp

lemma pages_needed_step:
  "e < t \<Longrightarrow> pages_needed (t - e) = Suc (pages_needed (t - (e + 500)))"
proof -
  assume lt: "e < t"
  have "t - e + 499 = (t - (e + 500) + 499) + 500" by simp
  then have a: "(t - e + 499) div 500 = (t - (e + 500) + 499) div 500 + 1"
    by (simp only: div_500_step)
  from lt have "0 \<le> t - (e + 500) + 499" by simp
  then have b: "0 \<le> (t - (e + 500) + 499) div 500"
    by (simp only: pos_imp_zdiv_nonneg_iff [of 500, simplified])
  from a b show ?thesis
    unfolding pages_needed_def by (simp add: nat_add_distrib)
qed

lemma pages_needed_zero: "\<not> e < t \<Longrightarrow> pages_needed (t - e) = 0"
  unfolding pages_needed_def by simp

lemma upt_head: "[p ..< Suc (p + n)] = p # [Suc p ..< Suc (p + n)]"
  by (rule upt_conv_Cons) simp

lemma fetch_pages_head:
  "fetch_pages mk answer [p ..< Suc (p + n)] dfs st =
     (case fetch (mk p) (answer p) st of
        (st', Inl e) \<Rightarrow> (st', Inl e)
      | (st', Inr d) \<Rightarrow> fetch_pages mk answer [Suc p ..< Suc (p + n)] (dfs @ [d]) st')"
  by (subst upt_head) simp

lemma ridecounts_loop_fetch_pages:
  "ridecounts_loop w region_id t p e dfs st =
     fetch_pages (Ridelogs ''created'' region_id 500) (ridelog_created w region_id 500)
       [p ..< p + pages_needed (t - e)] dfs st"
proof (induction w region_id t p e dfs st rule: ridecounts_loop.induct)
  case (1 w region_id t p e dfs st)
  show ?case
  proof (cases "e < t")
    case True
    show ?thesis
      using True "1.IH"
      by (subst ridecounts_loop.simps)
         (simp add: pages_needed_step [OF True] fetch_pages_head del: upt_Suc
            split: prod.splits sum.splits)
  next
    case False
    then show ?thesis
      by (subst ridecounts_loop.simps) (simp add: pages_needed_zero)
  qed
qed

lemma ridelogs_loop_fetch_pages:
  "ridelogs_loop w region_id rest p dfs st =
     fetch_pages
       (Ridelogs ''note,created,location_name,location_id,year,device_name,username'' region_id 100)
       (ridelog_rows w region_id 100) [p ..< p + length rest] dfs st"
proof (induction rest arbitrary: p dfs st)
  case Nil
  show ?case by simp
next
  case (Cons i rest)
  show ?case
    by (simp add: Cons.IH fetch_pages_head del: upt_Suc split: prod.splits sum.splits)
qed

lemma regions_count_step:
  "e \<le> 40000 \<Longrightarrow> nat ((40500 - e) div 500) = Suc (nat ((40500 - (e + 500)) div 500))"
proof -
  assume le: "e \<le> 40000"
  have "40500 - e = (40500 - (e + 500)) + 500" by simp
  then have a: "(40500 - e) div 500 = (40500 - (e + 500)) div 500 + 1"
    by (simp only: div_500_step)
  from le have "0 \<le> 40500 - (e + 500)" by simp
  then have b: "0 \<le> (40500 - (e + 500)) div 500"
    by (simp only: pos_imp_zdiv_nonneg_iff [of 500, simplified])
  from a b show ?thesis by (simp add: nat_add_distrib)
qed

lemma regions_loop_fetch_pages:
  "regions_loop w p e dfs st =
     fetch_pages (RegionsPage 500) (region_rows w 500)
       [p ..< p + nat ((40500 - e) div 500)] dfs st"
proof (induction w p e dfs st rule: regions_loop.induct)
  case (1 w p e dfs st)
  show ?case
  proof (cases "e \<le> 40000")
    case True
    show ?thesis
      using True "1.IH"
      by (subst regions_loop.simps)
         (simp add: regions_count_step [OF True] fetch_pages_head del: upt_Suc
            split: prod.splits sum.splits)
  next
    case False
    then have "nat ((40500 - e) div 500) = 0" by simp
    with False show ?thesis
      by (subst regions_loop.simps) simp
  qed
qed

subsection \<open>Region resolution\<close>

lemma is_valid_region_eq:
  "is_valid_region w r st =
     (st\<lparr>requests := requests st @ [RegionsByAlias r]\<rparr>,
      case regions_by_alias w r of Inl e \<Rightarrow> Inl e | Inr recs \<Rightarrow> Inr (recs \<noteq> []))"
  by (cases "regions_by_alias w r")
     (simp_all add: is_valid_region_def then_do_def http_get_def return_def)

lemma check_region_eq:
  "check_region w r st =
     (st\<lparr>requests := requests st @ [RegionsByAlias r]\<rparr>,
      case regions_by_alias w r of
        Inl e \<Rightarrow> Inl e
      | Inr recs \<Rightarrow>
          if recs = [] then Inl (InvalidRegion (''[!] '' @ r @ '' is not a valid Trailforks Region.''))
          else Inr True)"
  by (cases "regions_by_alias w r")
     (simp_all add: check_region_def is_valid_region_eq then_do_def raise_def return_def)

text \<open>
  Claim C6. When the query by alias returns its records, \<open>is_valid_region\<close> returns
  \<open>False\<close> if there are none and \<open>True\<close> otherwise; \<open>check_region\<close> returns \<open>True\<close>
  exactly where \<open>is_valid_region\<close> returns \<open>True\<close> and raises \<open>InvalidRegion\<close> exactly
  where it returns \<open>False\<close>. Either way the state afterwards is the state before with
  the one request of the query added and nothing else changed. When the query raises, both
  operations raise the same exception.
\<close>

theorem check_region_contract:
  "(\<forall>recs. regions_by_alias w r = Inr recs \<longrightarrow>
      is_valid_region w r st
        = (st\<lparr>requests := requests st @ [RegionsByAlias r]\<rparr>, Inr (recs \<noteq> []))
      \<and> check_region w r st
        = (st\<lparr>requests := requests st @ [RegionsByAlias r]\<rparr>,
           if recs = []
           then Inl (InvalidRegion (''[!] '' @ r @ '' is not a valid Trailforks Region.''))
           else Inr True))
   \<and> (\<forall>e. regions_by_alias w r = Inl e \<longrightarrow>
      is_valid_region w r st = (st\<lparr>requests := requests st @ [RegionsByAlias r]\<rparr>, Inl e)
      \<and> check_region w r st = (st\<lparr>requests := requests st @ [RegionsByAlias r]\<rparr>, Inl e))"
  by (simp add: is_valid_region_eq check_region_eq)

text \<open>The contract at a region that exists and at one that does not.\<close>

theorem check_region_contract_witness:
  "is_valid_region demo_api ''lebanon-hills'' start
     = (\<lparr>requests = [RegionsByAlias ''lebanon-hills''], files = (\<lambda>name. None)\<rparr>, Inr True)
   \<and> check_region demo_api ''lebanon-hills'' start
     = (\<lparr>requests = [RegionsByAlias ''lebanon-hills''], files = (\<lambda>name. None)\<rparr>, Inr True)
   \<and> is_valid_region demo_api ''fake_004957856934'' start
     = (\<lparr>requests = [RegionsByAlias ''fake_004957856934''], files = (\<lambda>name. None)\<rparr>, Inr False)
   \<and> check_region demo_api ''fake_004957856934'' start
     = (\<lparr>requests = [RegionsByAlias ''fake_004957856934''], files = (\<lambda>name. None)\<rparr>,
        Inl (InvalidRegion ''[!] fake_004957856934 is not a valid Trailforks Region.''))"
proof -
  have good: "regions_by_alias demo_api ''lebanon-hills''
      = Inr [\<lparr>rid = 3112, title = ''Lebanon Hills'', alias_name = ''lebanon-hills''\<rparr>]"
    by (simp add: demo_api_def)
  have bad: "regions_by_alias demo_api ''fake_004957856934'' = Inr []"
    by (simp add: demo_api_def)
  note g = check_region_contract [of demo_api "''lebanon-hills''" start,
      THEN conjunct1, rule_format, OF good]
  note b = check_region_contract [of demo_api "''fake_004957856934''" start,
      THEN conjunct1, rule_format, OF bad]
  from g b show ?thesis by (simp add: start_def)
qed

subsection \<open>Badge rescan\<close>

lemma rescan_loop_closed:
  "rescan_loop site ids st =
     (case dropWhile (completes site) ids of
        [] \<Rightarrow> (st\<lparr>requests := requests st @ map (\<lambda>i. RescanBadges (strip i)) ids\<rparr>, Inr ())
      | i # _ \<Rightarrow>
          (st\<lparr>requests := requests st
              @ map (\<lambda>i. RescanBadges (strip i)) (takeWhile (completes site) ids @ [i])\<rparr>,
           Inl (case rescan_page site (strip i) of Inl e \<Rightarrow> e)))"
proof (induction ids arbitrary: st)
  case Nil
  show ?case by simp
next
  case (Cons i ids)
  show ?case
  proof (cases "rescan_page site (strip i)")
    case (Inl e)
    then show ?thesis by (simp add: completes_def http_get_def)
  next
    case (Inr r)
    then have c: "completes site i" by (simp add: completes_def)
    show ?thesis
    proof (cases "dropWhile (completes site) ids")
      case Nil
      from c Inr show ?thesis by (simp add: http_get_def Cons.IH Nil)
    next
      case (Cons j js)
      from c Inr show ?thesis by (simp add: http_get_def Cons.IH Cons)
    qed
  qed
qed

lemma dropWhile_split:
  "ids = before @ i # later \<Longrightarrow> \<forall>j\<in>set before. P j \<Longrightarrow> \<not> P i \<Longrightarrow>
     dropWhile P ids = i # later \<and> takeWhile P ids = before"
  by (simp add: dropWhile_append3 takeWhile_tail)

text \<open>
  Claim C4. If the request of every id completes, one request per id is issued, in the
  order of the list, and the result is \<open>True\<close>. If the request of some id raises, the
  requests issued are those of the ids before the first such id and of that id, none for
  a later id, and the result is \<open>False\<close>. So the result is \<open>True\<close> if and only if every
  request completes.
\<close>

theorem rescan_all_or_nothing:
  "((\<forall>i\<in>set ids. completes site i) \<longrightarrow>
      rescan_ridelogs_for_badges site ids st
        = (st\<lparr>requests := requests st @ map (\<lambda>i. RescanBadges (strip i)) ids\<rparr>, True))
   \<and> (\<forall>before i later.
         ids = before @ i # later \<and> (\<forall>j\<in>set before. completes site j) \<and> \<not> completes site i \<longrightarrow>
         rescan_ridelogs_for_badges site ids st
           = (st\<lparr>requests := requests st @ map (\<lambda>i. RescanBadges (strip i)) (before @ [i])\<rparr>,
              False))
   \<and> snd (rescan_ridelogs_for_badges site ids st) = (\<forall>i\<in>set ids. completes site i)"
proof (intro conjI allI impI)
  assume "\<forall>i\<in>set ids. completes site i"
  then have d: "dropWhile (completes site) ids = []" by simp
  show "rescan_ridelogs_for_badges site ids st
      = (st\<lparr>requests := requests st @ map (\<lambda>i. RescanBadges (strip i)) ids\<rparr>, True)"
    by (simp add: rescan_ridelogs_for_badges_def rescan_loop_closed d)
next
  fix before i later
  assume "ids = before @ i # later \<and> (\<forall>j\<in>set before. completes site j) \<and> \<not> completes site i"
  then have d: "dropWhile (completes site) ids = i # later"
    "takeWhile (completes site) ids = before"
    using dropWhile_split [of ids before i later "completes site"] by simp_all
  show "rescan_ridelogs_for_badges site ids st
      = (st\<lparr>requests := requests st @ map (\<lambda>i. RescanBadges (strip i)) (before @ [i])\<rparr>, False)"
    by (simp add: rescan_ridelogs_for_badges_def rescan_loop_closed d)
next
  show "snd (rescan_ridelogs_for_badges site ids st) = (\<forall>i\<in>set ids. completes site i)"
  proof (cases "dropWhile (completes site) ids")
    case Nil
    then have "\<forall>i\<in>set ids. completes site i" by simp
    then show ?thesis
      by (simp add: rescan_ridelogs_for_badges_def rescan_loop_closed Nil)
  next
    case (Cons j js)
    then have "\<not> (\<forall>i\<in>set ids. completes site i)"
      by (metis dropWhile_eq_Nil_conv list.distinct(1))
    then show ?thesis
      by (simp add: rescan_ridelogs_for_badges_def rescan_loop_closed Cons)
  qed
qed

text \<open>
  Three ids of which the second raises: the third is never requested. Without the second,
  both requests are issued.
\<close>

theorem rescan_all_or_nothing_witness:
  "rescan_ridelogs_for_badges demo_web [''1'', '' 2 '', ''3''] start
     = (\<lparr>requests = [RescanBadges ''1'', RescanBadges ''2''], files = (\<lambda>name. None)\<rparr>, False)
   \<and> rescan_ridelogs_for_badges demo_web [''1'', ''3''] start
     = (\<lparr>requests = [RescanBadges ''1'', RescanBadges ''3''], files = (\<lambda>name. None)\<rparr>, True)"
proof -
  have s: "strip ''1'' = ''1''" "strip '' 2 '' = ''2''" "strip ''3'' = ''3''"
    by (simp_all add: strip_def py_isspace_def)
  have c: "completes demo_web ''1''" "\<not> completes demo_web '' 2 ''" "completes demo_web ''3''"
    by (simp_all add: completes_def demo_web_def s)
  have split: "[''1'', '' 2 '', ''3''] = [''1''] @ '' 2 '' # [''3'']
      \<and> (\<forall>j\<in>set [''1'']. completes demo_web j) \<and> \<not> completes demo_web '' 2 ''"
    using c by simp
  have all: "\<forall>i\<in>set [''1'', ''3'']. completes demo_web i"
    using c by simp
  note a = rescan_all_or_nothing [of "[''1'', '' 2 '', ''3'']" demo_web start,
      THEN conjunct2, THEN conjunct1, rule_format, OF split]
  note b = rescan_all_or_nothing [of "[''1'', ''3'']" demo_web start,
      THEN conjunct1, THEN mp, OF all]
  from a b show ?thesis by (simp add: start_def s)
qed

subsection \<open>The file written by the ridelog scraper\<close>

lemma get_user_all_ridelogs_fetch_fails:
  "ridelog_page site u = Inl e \<Longrightarrow>
     get_user_all_ridelogs site u st = (st\<lparr>requests := requests st @ [ProfileRidelog u]\<rparr>, Inl e)"
  by (simp add: get_user_all_ridelogs_def then_do_def http_get_def)

lemma get_user_all_ridelogs_no_table:
  "ridelog_page site u = Inr html \<Longrightarrow> read_html site html = Inl e \<Longrightarrow>
     get_user_all_ridelogs site u st = (st\<lparr>requests := requests st @ [ProfileRidelog u]\<rparr>, Inl e)"
  by (simp add: get_user_all_ridelogs_def then_do_def http_get_def lift_def)

lemma get_user_all_ridelogs_table:
  "ridelog_page site u = Inr html \<Longrightarrow> read_html site html = Inr df \<Longrightarrow>
     fst (get_user_all_ridelogs site u st)
       = st\<lparr>requests := requests st @ [ProfileRidelog u],
             files := (files st)(''data.html'' \<mapsto> html)\<rparr>"
  by (simp add: get_user_all_ridelogs_def then_do_def http_get_def lift_def write_file_def
      split: sum.splits prod.splits)

text \<open>
  Claim C9, as amended. On every call in which the ridelog page is fetched and
  \<open>pd.read_html\<close> finds a table in it, the whole text of the page is the content of
  \<open>data.html\<close> afterwards, whatever the file held before and whether or not the rest of
  the call raises; so it is on every call that returns a table. When the fetch raises or
  no table is found, the call raises before the file is opened and the files are as they
  were.
\<close>

theorem data_html_written:
  "(\<forall>html df. ridelog_page site u = Inr html \<and> read_html site html = Inr df \<longrightarrow>
      files (fst (get_user_all_ridelogs site u st)) = (files st)(''data.html'' \<mapsto> html))
   \<and> (\<forall>rows. snd (get_user_all_ridelogs site u st) = Inr rows \<longrightarrow>
      (\<exists>html. ridelog_page site u = Inr html
         \<and> files (fst (get_user_all_ridelogs site u st)) = (files st)(''data.html'' \<mapsto> html)))
   \<and> ((\<exists>e. ridelog_page site u = Inl e)
        \<or> (\<exists>html e. ridelog_page site u = Inr html \<and> read_html site html = Inl e) \<longrightarrow>
      files (fst (get_user_all_ridelogs site u st)) = files st
      \<and> (\<exists>e. snd (get_user_all_ridelogs site u st) = Inl e))"
proof (intro conjI allI impI)
  fix html df
  assume "ridelog_page site u = Inr html \<and> read_html site html = Inr df"
  then show "files (fst (get_user_all_ridelogs site u st)) = (files st)(''data.html'' \<mapsto> html)"
    by (simp add: get_user_all_ridelogs_table)
next
  fix rows
  assume ret: "snd (get_user_all_ridelogs site u st) = Inr rows"
  show "\<exists>html. ridelog_page site u = Inr html
      \<and> files (fst (get_user_all_ridelogs site u st)) = (files st)(''data.html'' \<mapsto> html)"
  proof (cases "ridelog_page site u")
    case (Inl e)
    with ret show ?thesis by (simp add: get_user_all_ridelogs_fetch_fails)
  next
    case page: (Inr html)
    show ?thesis
    proof (cases "read_html site html")
      case (Inl e)
      with page ret show ?thesis by (simp add: get_user_all_ridelogs_no_table)
    next
      case (Inr df)
      with page show ?thesis by (simp add: get_user_all_ridelogs_table)
    qed
  qed
next
  assume "(\<exists>e. ridelog_page site u = Inl e)
      \<or> (\<exists>html e. ridelog_page site u = Inr html \<and> read_html site html = Inl e)"
  then show "files (fst (get_user_all_ridelogs site u st)) = files st"
    by (auto simp: get_user_all_ridelogs_fetch_fails get_user_all_ridelogs_no_table)
next
  assume "(\<exists>e. ridelog_page site u = Inl e)
      \<or> (\<exists>html e. ridelog_page site u = Inr html \<and> read_html site html = Inl e)"
  then show "\<exists>e. snd (get_user_all_ridelogs site u st) = Inl e"
    by (auto simp: get_user_all_ridelogs_fetch_fails get_user_all_ridelogs_no_table)
qed

text \<open>A call that returns a table, with an older \<open>data.html\<close> in place.\<close>

theorem data_html_written_witness:
  "files (fst (get_user_all_ridelogs demo_web ''rider''
       (start\<lparr>files := (files start)(''data.html'' \<mapsto> ''old'')\<rparr>)))
     = ((\<lambda>name. None)(''data.html'' \<mapsto> ''<table>rides</table>''))
   \<and> snd (get_user_all_ridelogs demo_web ''rider'' start)
     = Inr [((''row 1'', ''/ridelog/view/20367890/''), ''20367890'')]"
proof -
  have h: "ridelog_page demo_web ''rider'' = Inr ''<table>rides</table>''
      \<and> read_html demo_web ''<table>rides</table>'' = Inr [''row 1'']"
    by (simp add: demo_web_def)
  note w = data_html_written [of demo_web "''rider''"
      "start\<lparr>files := (files start)(''data.html'' \<mapsto> ''old'')\<rparr>",
      THEN conjunct1, rule_format, OF h]
  have r: "snd (get_user_all_ridelogs demo_web ''rider'' start)
      = Inr [((''row 1'', ''/ridelog/view/20367890/''), ''20367890'')]"
    by (simp add: get_user_all_ridelogs_def then_do_def http_get_def lift_def write_file_def
        demo_web_def get_ridelog_links_def set_column_def match_here_def is_digit_def
        at_dollar_def)
  from w r show ?thesis by (simp add: start_def)
qed

text \<open>
  The claim as worded, "on every call", fails for a page without table: the call raises
  \<open>ValueError\<close> and no \<open>data.html\<close> exists afterwards.
\<close>

theorem data_html_not_written_counterexample:
  "files (fst (get_user_all_ridelogs demo_web ''nobody'' start)) ''data.html'' = None
   \<and> snd (get_user_all_ridelogs demo_web ''nobody'' start) = Inl ValueError"
  by (simp add: get_user_all_ridelogs_def then_do_def http_get_def lift_def demo_web_def
      start_def)

subsection \<open>The fetchers on a known region\<close>

lemma get_region_id_by_alias_eq:
  "get_region_id_by_alias w name st = (st, region_id_of w name)"
  by (simp add: get_region_id_by_alias_def region_id_of_def lift_def)

lemma region_known_check:
  "region_known w name region_id \<Longrightarrow>
     check_region w name st = (st\<lparr>requests := requests st @ [RegionsByAlias name]\<rparr>, Inr True)"
  by (auto simp: region_known_def check_region_eq split: sum.splits)

lemma region_known_id:
  "region_known w name region_id \<Longrightarrow> region_id_of w name = Inr region_id"
  by (simp add: region_known_def)

lemma get_all_region_ridelogs_known:
  assumes "region_known w name region_id"
  shows "get_all_region_ridelogs w name pages st =
     (case fetch_pages (Ridelogs ridelog_fields region_id 100) (ridelog_rows w region_id 100)
             [0 ..< nat pages] [] (st\<lparr>requests := requests st @ [RegionsByAlias name]\<rparr>) of
        (st', Inl e) \<Rightarrow> (st', Inl e)
      | (st', Inr dfs) \<Rightarrow>
          (st', case pd_concat dfs of Inl e \<Rightarrow> Inl e | Inr final_df \<Rightarrow> add_date_column w final_df))"
  by (simp add: get_all_region_ridelogs_def then_do_def region_known_check [OF assms]
      get_region_id_by_alias_eq region_known_id [OF assms] ridelogs_loop_fetch_pages
      ridelog_fields_def lift_def split: prod.splits sum.splits)

lemma get_region_info_known:
  assumes "region_known w name region_id"
  shows "get_region_info w name st =
     (st\<lparr>requests := requests st @ [RegionsByAlias name, RegionDetail region_id]\<rparr>,
      if page_ok (region_by_id w region_id) then Inr (page_data (region_by_id w region_id))
      else Inl (page_error (region_by_id w region_id)))"
  by (simp add: get_region_info_def then_do_def region_known_check [OF assms]
      get_region_id_by_alias_eq region_known_id [OF assms] fetch_eq)

lemma get_region_ridecounts_known:
  assumes "region_known w name region_id" "page_ok (region_by_id w region_id)"
  shows "get_region_ridecounts w name st =
     (case fetch_pages (Ridelogs ''created'' region_id 500) (ridelog_created w region_id 500)
             [0 ..< pages_needed (ridden (page_data (region_by_id w region_id)))] []
             (st\<lparr>requests := requests st
                @ [RegionsByAlias name, RegionsByAlias name, RegionDetail region_id]\<rparr>) of
        (st', Inl e) \<Rightarrow> (st', Inl e)
      | (st', Inr dfs) \<Rightarrow>
          (st', case pd_concat dfs of
                  Inl e \<Rightarrow> Inl e
                | Inr df \<Rightarrow> (case ridecount_table w df of
                              Inl e \<Rightarrow> Inl e
                            | Inr t_df \<Rightarrow> enrich_ridecounts w t_df)))"
  using ridecounts_loop_fetch_pages [of w region_id
      "ridden (page_data (region_by_id w region_id))" 0 0]
  by (simp add: get_region_ridecounts_def then_do_def region_known_check [OF assms(1)]
      get_region_id_by_alias_eq region_known_id [OF assms(1)] get_region_info_known [OF assms(1)]
      assms(2) lift_def return_def split: prod.splits sum.splits)

lemma fetch_pages_all_ok:
  "\<forall>p\<in>set ps. page_ok (answer p) \<Longrightarrow>
     fetch_pages mk answer ps dfs st =
       (st\<lparr>requests := requests st @ map mk ps\<rparr>,
        Inr (dfs @ map (\<lambda>p. page_data (answer p)) ps))"
proof -
  assume "\<forall>p\<in>set ps. page_ok (answer p)"
  then have d: "dropWhile (\<lambda>p. page_ok (answer p)) ps = []" by simp
  show ?thesis by (simp add: fetch_pages_closed d)
qed

lemma demo_known:
  "region_known demo_api ''lebanon-hills'' 3112"
  "region_known quiet_api ''lebanon-hills'' 3112"
  "region_known locked_api ''lebanon-hills'' 3112"
  by (simp_all add: region_known_def region_id_of_def demo_api_def quiet_api_def locked_api_def)

lemma start_fields: "requests start = []" "files start = (\<lambda>name. None)"
  by (simp_all add: start_def)

text \<open>
  Claim C10. On a valid region, a loop that runs no iteration leaves the list of page
  tables empty, and the concatenation of the empty list raises \<open>ValueError\<close>: in
  \<open>get_all_region_ridelogs\<close> when \<open>pages\<close> is zero or negative, and in
  \<open>get_region_ridecounts\<close> when the region's detail record is fetched and reports no ride
  (zero, or a negative number). No empty table is returned.
\<close>

theorem empty_concat_raises:
  "region_known w name region_id \<longrightarrow>
     (pages \<le> 0 \<longrightarrow>
        ridelogs_loop w region_id [0..pages - 1] 0 [] st = (st, Inr [])
        \<and> get_all_region_ridelogs w name pages st
          = (st\<lparr>requests := requests st @ [RegionsByAlias name]\<rparr>, Inl ValueError))
     \<and> (page_ok (region_by_id w region_id)
          \<and> ridden (page_data (region_by_id w region_id)) \<le> 0 \<longrightarrow>
        ridecounts_loop w region_id (ridden (page_data (region_by_id w region_id))) 0 0 [] st
          = (st, Inr [])
        \<and> get_region_ridecounts w name st
          = (st\<lparr>requests := requests st
               @ [RegionsByAlias name, RegionsByAlias name, RegionDetail region_id]\<rparr>,
             Inl ValueError))"
proof (intro impI conjI)
  assume "pages \<le> 0"
  then show "ridelogs_loop w region_id [0..pages - 1] 0 [] st = (st, Inr [])"
    by simp
next
  assume k: "region_known w name region_id" and "pages \<le> 0"
  then show "get_all_region_ridelogs w name pages st
      = (st\<lparr>requests := requests st @ [RegionsByAlias name]\<rparr>, Inl ValueError)"
    by (simp add: get_all_region_ridelogs_known [OF k] pd_concat_def)
next
  assume "page_ok (region_by_id w region_id)
      \<and> ridden (page_data (region_by_id w region_id)) \<le> 0"
  then show "ridecounts_loop w region_id (ridden (page_data (region_by_id w region_id))) 0 0 [] st
      = (st, Inr [])"
    by (subst ridecounts_loop.simps) simp
next
  assume k: "region_known w name region_id"
    and z: "page_ok (region_by_id w region_id)
      \<and> ridden (page_data (region_by_id w region_id)) \<le> 0"
  then have "pages_needed (ridden (page_data (region_by_id w region_id))) = 0"
    using pages_needed_zero [of 0 "ridden (page_data (region_by_id w region_id))"] by simp
  with z show "get_region_ridecounts w name st
      = (st\<lparr>requests := requests st
           @ [RegionsByAlias name, RegionsByAlias name, RegionDetail region_id]\<rparr>,
         Inl ValueError)"
    by (simp add: get_region_ridecounts_known [OF k] pd_concat_def)
qed

text \<open>Zero pages asked for, and a region with zero rides reported.\<close>

theorem empty_concat_raises_witness:
  "get_all_region_ridelogs demo_api ''lebanon-hills'' 0 start
     = (\<lparr>requests = [RegionsByAlias ''lebanon-hills''], files = (\<lambda>name. None)\<rparr>, Inl ValueError)
   \<and> get_region_ridecounts quiet_api ''lebanon-hills'' start
     = (\<lparr>requests = [RegionsByAlias ''lebanon-hills'', RegionsByAlias ''lebanon-hills'',
                      RegionDetail 3112],
         files = (\<lambda>name. None)\<rparr>, Inl ValueError)"
proof -
  have z: "page_ok (region_by_id quiet_api 3112)
      \<and> ridden (page_data (region_by_id quiet_api 3112)) \<le> 0"
    by (simp add: quiet_api_def demo_api_def ok_response_def page_ok_def page_data_def)
  have p: "(0::int) \<le> 0" by simp
  note a = empty_concat_raises [of demo_api "''lebanon-hills''" 3112 0 start,
      THEN mp, OF demo_known(1), THEN conjunct1, THEN mp, OF p, THEN conjunct2]
  note b = empty_concat_raises [of quiet_api "''lebanon-hills''" 3112 0 start,
      THEN mp, OF demo_known(2), THEN conjunct2, THEN mp, OF z, THEN conjunct2]
  from a b show ?thesis by (simp add: start_def)
qed

subsection \<open>A page that cannot be fetched ends the fetch\<close>

lemma fetch_pages_log:
  assumes "fetch_pages mk answer ps dfs st = (st', res)"
  shows "\<exists>qs. requests st' = requests st @ map mk qs \<and> files st' = files st
      \<and> (\<forall>q\<in>set (butlast qs). page_ok (answer q))
      \<and> (case res of
            Inr out \<Rightarrow> \<forall>q\<in>set qs. page_ok (answer q)
          | Inl e \<Rightarrow> qs \<noteq> [] \<and> e = page_error (answer (last qs)))"
proof (cases "dropWhile (\<lambda>p. page_ok (answer p)) ps")
  case Nil
  then have ok: "\<forall>q\<in>set ps. page_ok (answer q)" by simp
  then have "\<forall>q\<in>set (butlast ps). page_ok (answer q)"
    by (meson in_set_butlastD)
  with assms ok show ?thesis
    by (intro exI [of _ ps]) (auto simp: fetch_pages_closed Nil)
next
  case (Cons p rest)
  have "\<forall>q\<in>set (takeWhile (\<lambda>p. page_ok (answer p)) ps). page_ok (answer q)"
    by (meson set_takeWhileD)
  with assms show ?thesis
    by (intro exI [of _ "takeWhile (\<lambda>p. page_ok (answer p)) ps @ [p]"])
       (auto simp: fetch_pages_closed Cons)
qed

lemma fetch_pages_locked:
  assumes inj: "\<And>a b. mk a = mk b \<Longrightarrow> a = b"
    and run: "fetch_pages mk answer ps dfs st = (st', res)"
    and req: "mk p \<in> set (drop (length (requests st)) (requests st'))"
    and ans: "answer p = Inr r" "status_code r = 401"
  shows "res = Inl (RegionLockedAPI (''[!] Error: '' @ message r)) \<and> last (requests st') = mk p"
proof -
  from fetch_pages_log [OF run] obtain qs where
    log: "requests st' = requests st @ map mk qs"
    and front: "\<forall>q\<in>set (butlast qs). page_ok (answer q)"
    and res: "case res of
            Inr out \<Rightarrow> \<forall>q\<in>set qs. page_ok (answer q)
          | Inl e \<Rightarrow> qs \<noteq> [] \<and> e = page_error (answer (last qs))"
    by blast
  from req log have "mk p \<in> mk ` set qs" by simp
  with inj have p: "p \<in> set qs" by auto
  from ans have bad: "\<not> page_ok (answer p)" by (simp add: page_ok_def)
  from p have ne: "qs \<noteq> []" by auto
  have "p = last qs"
  proof (rule ccontr)
    assume "p \<noteq> last qs"
    moreover from ne have "set qs = insert (last qs) (set (butlast qs))"
      by (cases qs rule: rev_cases) auto
    ultimately have "p \<in> set (butlast qs)" using p by auto
    with front bad show False by blast
  qed
  moreover from res p bad obtain e where "res = Inl e" "e = page_error (answer (last qs))"
    by (cases res) auto
  ultimately show ?thesis
    using ans ne log by (simp add: page_error_def last_map)
qed


lemma unknown_region_check:
  assumes "\<forall>region_id. \<not> region_known w name region_id"
  shows "(\<exists>e. check_region w name st
             = (st\<lparr>requests := requests st @ [RegionsByAlias name]\<rparr>, Inl e))
         \<or> (\<exists>e. region_id_of w name = Inl e)"
proof (cases "region_id_of w name")
  case (Inl e)
  then show ?thesis by blast
next
  case (Inr region_id)
  with assms have "case regions_by_alias w name of Inl e \<Rightarrow> True | Inr recs \<Rightarrow> recs = []"
    by (auto simp: region_known_def split: sum.splits)
  then show ?thesis
    by (auto simp: check_region_eq split: sum.splits)
qed

lemma ridelogs_unknown:
  assumes "\<forall>region_id. \<not> region_known w name region_id"
  shows "fst (get_all_region_ridelogs w name pages st)
           = st\<lparr>requests := requests st @ [RegionsByAlias name]\<rparr>"
  using unknown_region_check [OF assms, of st]
  by (auto simp: get_all_region_ridelogs_def then_do_def get_region_id_by_alias_eq
      check_region_eq split: sum.splits prod.splits)

lemma trails_unknown:
  assumes "\<forall>region_id. \<not> region_known w name region_id"
  shows "fst (get_all_region_trails w name st)
           = st\<lparr>requests := requests st @ [RegionsByAlias name]\<rparr>"
  using unknown_region_check [OF assms, of st]
  by (auto simp: get_all_region_trails_def then_do_def get_region_id_by_alias_eq
      check_region_eq split: sum.splits prod.splits)

lemma ridecounts_unknown:
  assumes "\<forall>region_id. \<not> region_known w name region_id"
  shows "fst (get_region_ridecounts w name st)
           = st\<lparr>requests := requests st @ [RegionsByAlias name]\<rparr>"
  using unknown_region_check [OF assms, of st]
  by (auto simp: get_region_ridecounts_def then_do_def get_region_id_by_alias_eq
      check_region_eq split: sum.splits prod.splits)

lemma ridecounts_info_fails:
  assumes "region_known w name region_id" "\<not> page_ok (region_by_id w region_id)"
  shows "fst (get_region_ridecounts w name st)
           = st\<lparr>requests := requests st
               @ [RegionsByAlias name, RegionsByAlias name, RegionDetail region_id]\<rparr>"
  by (simp add: get_region_ridecounts_def then_do_def region_known_check [OF assms(1)]
      get_region_id_by_alias_eq region_known_id [OF assms(1)] get_region_info_known [OF assms(1)]
      assms(2))

lemma get_all_region_trails_known:
  assumes "region_known w name region_id"
  shows "get_all_region_trails w name st =
     fetch (Trails region_id 100) (trail_rows w region_id 100)
       (st\<lparr>requests := requests st @ [RegionsByAlias name]\<rparr>)"
  by (simp add: get_all_region_trails_def then_do_def region_known_check [OF assms]
      get_region_id_by_alias_eq region_known_id [OF assms])

lemma fetch_pages_locked_from:
  assumes inj: "\<And>a b. mk a = mk b \<Longrightarrow> a = b"
    and pre: "\<forall>k. mk k \<notin> set pre"
    and run: "fetch_pages mk answer ps dfs (st\<lparr>requests := requests st @ pre\<rparr>) = (st', res)"
    and req: "mk p \<in> set (issued st st')"
    and ans: "answer p = Inr r" "status_code r = 401"
  shows "res = Inl (RegionLockedAPI (''[!] Error: '' @ message r)) \<and> last (requests st') = mk p"
proof -
  let ?st1 = "st\<lparr>requests := requests st @ pre\<rparr>"
  from fetch_pages_log [OF run] obtain qs where
    log: "requests st' = requests ?st1 @ map mk qs" by blast
  then have "issued st st' = pre @ map mk qs" by (simp add: issued_def)
  with req pre have "mk p \<in> set (map mk qs)" by auto
  with log have "mk p \<in> set (drop (length (requests ?st1)) (requests st'))" by simp
  from fetch_pages_locked [of mk, OF inj run this ans] show ?thesis .
qed

lemma ridelogs_locked:
  assumes run: "get_all_region_ridelogs w name pages st = (st', res)"
    and req: "Ridelogs ridelog_fields region_id 100 k \<in> set (issued st st')"
    and ans: "ridelog_rows w region_id 100 k = Inr r" "status_code r = 401"
  shows "res = Inl (RegionLockedAPI (''[!] Error: '' @ message r))
     \<and> last (requests st') = Ridelogs ridelog_fields region_id 100 k"
proof (cases "\<exists>i. region_known w name i")
  case False
  then have "fst (get_all_region_ridelogs w name pages st)
      = st\<lparr>requests := requests st @ [RegionsByAlias name]\<rparr>"
    by (intro ridelogs_unknown) simp
  with run have "issued st st' = [RegionsByAlias name]"
    by (simp add: issued_def)
  with req show ?thesis by simp
next
  case True
  then obtain i where known: "region_known w name i" by blast
  obtain st2 res2 where
    loop: "fetch_pages (Ridelogs ridelog_fields i 100) (ridelog_rows w i 100) [0 ..< nat pages] []
        (st\<lparr>requests := requests st @ [RegionsByAlias name]\<rparr>) = (st2, res2)"
    by fastforce
  from run have st': "st' = st2"
    and res: "res = (case res2 of Inl e \<Rightarrow> Inl e
        | Inr dfs \<Rightarrow> (case pd_concat dfs of Inl e \<Rightarrow> Inl e
                      | Inr final_df \<Rightarrow> add_date_column w final_df))"
    by (auto simp: get_all_region_ridelogs_known [OF known] loop split: sum.splits)
  from fetch_pages_log [OF loop] obtain qs where
    "requests st2 = requests st @ [RegionsByAlias name] @ map (Ridelogs ridelog_fields i 100) qs"
    by auto
  with req st' have "region_id = i" by (auto simp: issued_def)
  with req st' ans loop
  have "res2 = Inl (RegionLockedAPI (''[!] Error: '' @ message r))
      \<and> last (requests st2) = Ridelogs ridelog_fields i 100 k"
    by (intro fetch_pages_locked_from [where pre = "[RegionsByAlias name]" and st = st
          and answer = "ridelog_rows w i 100" and ps = "[0 ..< nat pages]" and dfs = "[]"])
       auto
  with res st' \<open>region_id = i\<close> show ?thesis by simp
qed

lemma ridecounts_locked:
  assumes run: "get_region_ridecounts w name st = (st', res)"
    and req: "Ridelogs ''created'' region_id 500 k \<in> set (issued st st')"
    and ans: "ridelog_created w region_id 500 k = Inr r" "status_code r = 401"
  shows "res = Inl (RegionLockedAPI (''[!] Error: '' @ message r))
     \<and> last (requests st') = Ridelogs ''created'' region_id 500 k"
proof (cases "\<exists>i. region_known w name i")
  case False
  then have "fst (get_region_ridecounts w name st)
      = st\<lparr>requests := requests st @ [RegionsByAlias name]\<rparr>"
    by (intro ridecounts_unknown) simp
  with run have "issued st st' = [RegionsByAlias name]"
    by (simp add: issued_def)
  with req show ?thesis by simp
next
  case True
  then obtain i where known: "region_known w name i" by blast
  show ?thesis
  proof (cases "page_ok (region_by_id w i)")
    case False
    from ridecounts_info_fails [OF known False, of st] run
    have "issued st st' = [RegionsByAlias name, RegionsByAlias name, RegionDetail i]"
      by (simp add: issued_def)
    with req show ?thesis by simp
  next
    case info: True
    let ?pre = "[RegionsByAlias name, RegionsByAlias name, RegionDetail i]"
    obtain st2 res2 where
      loop: "fetch_pages (Ridelogs ''created'' i 500) (ridelog_created w i 500)
          [0 ..< pages_needed (ridden (page_data (region_by_id w i)))] []
          (st\<lparr>requests := requests st @ ?pre\<rparr>) = (st2, res2)"
      by fastforce
    from run have st': "st' = st2"
      and res: "res = (case res2 of Inl e \<Rightarrow> Inl e
          | Inr dfs \<Rightarrow> (case pd_concat dfs of Inl e \<Rightarrow> Inl e
                        | Inr df \<Rightarrow> (case ridecount_table w df of Inl e \<Rightarrow> Inl e
                                      | Inr t_df \<Rightarrow> enrich_ridecounts w t_df)))"
      by (auto simp: get_region_ridecounts_known [OF known info] loop split: sum.splits)
    from fetch_pages_log [OF loop] obtain qs where
      "requests st2 = requests st @ ?pre @ map (Ridelogs ''created'' i 500) qs"
      by auto
    with req st' have "region_id = i" by (auto simp: issued_def)
    with req st' ans loop
    have "res2 = Inl (RegionLockedAPI (''[!] Error: '' @ message r))
        \<and> last (requests st2) = Ridelogs ''created'' i 500 k"
      by (intro fetch_pages_locked_from [where pre = ?pre and st = st
            and answer = "ridelog_created w i 500"
            and ps = "[0 ..< pages_needed (ridden (page_data (region_by_id w i)))]"
            and dfs = "[]"])
         auto
    with res st' \<open>region_id = i\<close> show ?thesis by simp
  qed
qed

lemma trails_locked:
  assumes run: "get_all_region_trails w name st = (st', res)"
    and req: "Trails region_id 100 \<in> set (issued st st')"
    and ans: "trail_rows w region_id 100 = Inr r" "status_code r = 401"
  shows "res = Inl (RegionLockedAPI (''[!] Error: '' @ message r))
     \<and> last (requests st') = Trails region_id 100"
proof (cases "\<exists>i. region_known w name i")
  case False
  then have "fst (get_all_region_trails w name st)
      = st\<lparr>requests := requests st @ [RegionsByAlias name]\<rparr>"
    by (intro trails_unknown) simp
  with run have "issued st st' = [RegionsByAlias name]"
    by (simp add: issued_def)
  with req show ?thesis by simp
next
  case True
  then obtain i where known: "region_known w name i" by blast
  from run have st': "st' = st\<lparr>requests := requests st @ [RegionsByAlias name, Trails i 100]\<rparr>"
    and res: "res = (if page_ok (trail_rows w i 100) then Inr (page_data (trail_rows w i 100))
        else Inl (page_error (trail_rows w i 100)))"
    by (auto simp: get_all_region_trails_known [OF known] fetch_eq)
  from req st' have "region_id = i" by (simp add: issued_def)
  with ans res st' show ?thesis
    by (simp add: page_ok_def page_error_def)
qed

lemma regions_locked:
  assumes run: "get_all_trailforks_regions w st = (st', res)"
    and req: "RegionsPage 500 k \<in> set (issued st st')"
    and ans: "region_rows w 500 k = Inr r" "status_code r = 401"
  shows "res = Inl (RegionLockedAPI (''[!] Error: '' @ message r))
     \<and> last (requests st') = RegionsPage 500 k"
proof -
  obtain st2 res2 where
    loop: "fetch_pages (RegionsPage 500) (region_rows w 500) [0 ..< 81] []
        (st\<lparr>requests := requests st @ []\<rparr>) = (st2, res2)"
    by fastforce
  have n: "nat ((40500 - 0) div 500) = 81" by simp
  from run have st': "st' = st2"
    and res: "res = (case res2 of Inl e \<Rightarrow> Inl e | Inr dfs \<Rightarrow> pd_concat dfs)"
    using loop
    by (auto simp: get_all_trailforks_regions_def then_do_def regions_loop_fetch_pages n
        lift_def split: sum.splits simp del: upt_Suc)
  from req st' ans loop
  have "res2 = Inl (RegionLockedAPI (''[!] Error: '' @ message r))
      \<and> last (requests st2) = RegionsPage 500 k"
    by (intro fetch_pages_locked_from [where pre = "[]" and st = st
          and answer = "region_rows w 500" and ps = "[0 ..< 81]" and dfs = "[]"])
       auto
  with res st' show ?thesis by simp
qed

text \<open>The four fetchers in the world where the pages after the first are locked.\<close>

lemma locked_answers:
  "ridelog_created locked_api 3112 500 1 = locked_response []"
  "ridelog_rows locked_api 3112 100 1 = locked_response []"
  "trail_rows locked_api 3112 100 = locked_response []"
  "region_rows locked_api 500 1 = locked_response []"
  "ridelog_created locked_api 3112 500 (Suc 0) = locked_response []"
  "ridelog_rows locked_api 3112 100 (Suc 0) = locked_response []"
  "region_rows locked_api 500 (Suc 0) = locked_response []"
  by (simp_all add: locked_api_def demo_api_def)

lemma locked_ridelogs_run:
  "get_all_region_ridelogs locked_api ''lebanon-hills'' 3 start
     = (\<lparr>requests = [RegionsByAlias ''lebanon-hills'',
                      Ridelogs ridelog_fields 3112 100 0,
                      Ridelogs ridelog_fields 3112 100 1],
         files = (\<lambda>name. None)\<rparr>,
        Inl (RegionLockedAPI ''[!] Error: Unauthorized''))"
proof -
  have r: "[0 ..< nat 3] = [0, 1, 2]" by (simp add: upt_rec)
  show ?thesis
    unfolding get_all_region_ridelogs_known [OF demo_known(3)] r
    by (simp add: fetch_eq locked_api_def demo_api_def ok_response_def locked_response_def
        page_ok_def page_data_def page_error_def start_def)
qed

lemma locked_ridecounts_run:
  "get_region_ridecounts locked_api ''lebanon-hills'' start
     = (\<lparr>requests = [RegionsByAlias ''lebanon-hills'', RegionsByAlias ''lebanon-hills'',
                      RegionDetail 3112,
                      Ridelogs ''created'' 3112 500 0,
                      Ridelogs ''created'' 3112 500 1],
         files = (\<lambda>name. None)\<rparr>,
        Inl (RegionLockedAPI ''[!] Error: Unauthorized''))"
proof -
  have info: "region_by_id locked_api 3112 = ok_response \<lparr>ridden = 1200\<rparr>"
    by (simp add: locked_api_def demo_api_def)
  have ok: "page_ok (region_by_id locked_api 3112)"
    by (simp add: info ok_response_def page_ok_def)
  have n: "pages_needed (ridden (page_data (region_by_id locked_api 3112))) = 3"
    by (simp add: info ok_response_def page_data_def pages_needed_def)
  have r: "[0 ..< 3] = [0, 1, 2::nat]" by (simp add: upt_rec)
  have a: "ridelog_created locked_api 3112 500 0 = ok_response [1660435200]"
    by (simp add: locked_api_def demo_api_def)
  show ?thesis
    unfolding get_region_ridecounts_known [OF demo_known(3) ok] n r
    by (simp add: fetch_eq a locked_answers ok_response_def locked_response_def
        page_ok_def page_data_def page_error_def start_def)
qed

lemma locked_trails_run:
  "get_all_region_trails locked_api ''lebanon-hills'' start
     = (\<lparr>requests = [RegionsByAlias ''lebanon-hills'', Trails 3112 100],
         files = (\<lambda>name. None)\<rparr>,
        Inl (RegionLockedAPI ''[!] Error: Unauthorized''))"
  unfolding get_all_region_trails_known [OF demo_known(3)]
  by (simp add: fetch_eq locked_answers locked_response_def page_ok_def page_error_def start_def)

lemma locked_regions_run:
  "get_all_trailforks_regions locked_api start
     = (\<lparr>requests = [RegionsPage 500 0, RegionsPage 500 1], files = (\<lambda>name. None)\<rparr>,
        Inl (RegionLockedAPI ''[!] Error: Unauthorized''))"
proof -
  have n: "nat ((40500 - 0) div 500) = 81" by simp
  have l: "[0 ..< 81] = 0 # 1 # [2 ..< 81]"
    by (simp add: upt_conv_Cons)
  have a: "region_rows locked_api 500 0 = ok_response []"
    by (simp add: locked_api_def demo_api_def)
  have "fetch_pages (RegionsPage 500) (region_rows locked_api 500) (0 # 1 # [2 ..< 81]) [] start
      = (\<lparr>requests = [RegionsPage 500 0, RegionsPage 500 1], files = (\<lambda>name. None)\<rparr>,
         Inl (RegionLockedAPI ''[!] Error: Unauthorized''))"
    by (simp add: fetch_eq a locked_answers ok_response_def locked_response_def
        page_ok_def page_data_def page_error_def start_def del: upt_Suc upt_rec_numeral)
  then show ?thesis
    unfolding get_all_trailforks_regions_def then_do_def regions_loop_fetch_pages n
    by (simp add: l del: upt_Suc upt_rec_numeral)
qed

text \<open>
  Claim C8, as amended. For a valid region and a page count of at least one, if every one
  of the pages 0 to \<open>pages - 1\<close> is answered with a status other than 401, then the page
  requests issued are exactly these pages, in ascending order, after the one request of the
  region check, whether or not the pages hold rows; and the table handed to the date step is
  the concatenation of the page tables in ascending page order.
\<close>

theorem ridelogs_fixed_page_count:
  "region_known w name region_id \<and> 1 \<le> pages
     \<and> (\<forall>k<nat pages. page_ok (ridelog_rows w region_id 100 k)) \<longrightarrow>
   get_all_region_ridelogs w name pages st =
     (st\<lparr>requests := requests st
         @ RegionsByAlias name # map (Ridelogs ridelog_fields region_id 100) [0 ..< nat pages]\<rparr>,
      add_date_column w
        (concat (map (\<lambda>k. page_data (ridelog_rows w region_id 100 k)) [0 ..< nat pages])))"
proof
  assume h: "region_known w name region_id \<and> 1 \<le> pages
     \<and> (\<forall>k<nat pages. page_ok (ridelog_rows w region_id 100 k))"
  then have k: "region_known w name region_id" by simp
  from h have ok: "\<forall>p\<in>set [0 ..< nat pages]. page_ok (ridelog_rows w region_id 100 p)"
    by simp
  from h have ne: "[0 ..< nat pages] \<noteq> []" by simp
  show "get_all_region_ridelogs w name pages st =
     (st\<lparr>requests := requests st
         @ RegionsByAlias name # map (Ridelogs ridelog_fields region_id 100) [0 ..< nat pages]\<rparr>,
      add_date_column w
        (concat (map (\<lambda>k. page_data (ridelog_rows w region_id 100 k)) [0 ..< nat pages])))"
    using ne
    by (simp add: get_all_region_ridelogs_known [OF k] fetch_pages_all_ok [OF ok] pd_concat_def)
qed

text \<open>Three pages, the second of them without rows.\<close>

theorem ridelogs_fixed_page_count_witness:
  "get_all_region_ridelogs demo_api ''lebanon-hills'' 3 start
     = (\<lparr>requests = [RegionsByAlias ''lebanon-hills'',
                      Ridelogs ridelog_fields 3112 100 0,
                      Ridelogs ridelog_fields 3112 100 1,
                      Ridelogs ridelog_fields 3112 100 2],
         files = (\<lambda>name. None)\<rparr>,
        Inr [(''ride a'', ''08/14/2022''), (''ride b'', ''08/14/2022''),
             (''ride c'', ''08/14/2022'')])"
proof -
  have r: "[0 ..< nat 3] = [0, 1, 2]" by (simp add: upt_rec)
  have ok: "\<forall>k<nat 3. page_ok (ridelog_rows demo_api 3112 100 k)"
    by (simp add: demo_api_def ok_response_def page_ok_def)
  have h: "region_known demo_api ''lebanon-hills'' 3112 \<and> (1::int) \<le> 3
      \<and> (\<forall>k<nat 3. page_ok (ridelog_rows demo_api 3112 100 k))"
    using demo_known(1) ok by simp
  note a = ridelogs_fixed_page_count [of demo_api "''lebanon-hills''" 3112 3 start, THEN mp, OF h]
  have d: "add_date_column demo_api
        (concat (map (\<lambda>k. page_data (ridelog_rows demo_api 3112 100 k)) [0, 1, 2]))
      = Inr [(''ride a'', ''08/14/2022''), (''ride b'', ''08/14/2022''),
             (''ride c'', ''08/14/2022'')]"
    by (simp add: demo_api_def ok_response_def page_data_def)
  from a show ?thesis unfolding r d by (simp add: start_def)
qed

text \<open>
  The claim as worded, for every valid region and page count, fails when a page is
  answered with status 401: of three pages asked for, two are requested, and the call
  raises.
\<close>

theorem ridelogs_locked_counterexample:
  "get_all_region_ridelogs locked_api ''lebanon-hills'' 3 start
     = (\<lparr>requests = [RegionsByAlias ''lebanon-hills'',
                      Ridelogs ridelog_fields 3112 100 0,
                      Ridelogs ridelog_fields 3112 100 1],
         files = (\<lambda>name. None)\<rparr>,
        Inl (RegionLockedAPI ''[!] Error: Unauthorized''))"
  by (rule locked_ridelogs_run)

text \<open>
  Claim C3. In each of the four fetchers (ride counts, trails, ride logs, all regions): if
  a page request issued during the call is answered with status 401, the call raises the
  locked-API condition with the message of that answer, so it returns no rows, those of
  earlier pages included; and that request is the last one the call issues.
\<close>

theorem locked_page_aborts_fetch:
  "(\<forall>st' res region_id k r.
      get_region_ridecounts w name st = (st', res)
      \<and> Ridelogs ''created'' region_id 500 k \<in> set (issued st st')
      \<and> ridelog_created w region_id 500 k = Inr r \<and> status_code r = 401 \<longrightarrow>
      res = Inl (RegionLockedAPI (''[!] Error: '' @ message r))
      \<and> last (requests st') = Ridelogs ''created'' region_id 500 k)
   \<and> (\<forall>st' res region_id r.
      get_all_region_trails w name st = (st', res)
      \<and> Trails region_id 100 \<in> set (issued st st')
      \<and> trail_rows w region_id 100 = Inr r \<and> status_code r = 401 \<longrightarrow>
      res = Inl (RegionLockedAPI (''[!] Error: '' @ message r))
      \<and> last (requests st') = Trails region_id 100)
   \<and> (\<forall>st' res region_id k r.
      get_all_region_ridelogs w name pages st = (st', res)
      \<and> Ridelogs ridelog_fields region_id 100 k \<in> set (issued st st')
      \<and> ridelog_rows w region_id 100 k = Inr r \<and> status_code r = 401 \<longrightarrow>
      res = Inl (RegionLockedAPI (''[!] Error: '' @ message r))
      \<and> last (requests st') = Ridelogs ridelog_fields region_id 100 k)
   \<and> (\<forall>st' res k r.
      get_all_trailforks_regions w st = (st', res)
      \<and> RegionsPage 500 k \<in> set (issued st st')
      \<and> region_rows w 500 k = Inr r \<and> status_code r = 401 \<longrightarrow>
      res = Inl (RegionLockedAPI (''[!] Error: '' @ message r))
      \<and> last (requests st') = RegionsPage 500 k)"
proof (intro conjI allI impI)
  fix st' res region_id k r
  assume "get_region_ridecounts w name st = (st', res)
      \<and> Ridelogs ''created'' region_id 500 k \<in> set (issued st st')
      \<and> ridelog_created w region_id 500 k = Inr r \<and> status_code r = 401"
  then have "res = Inl (RegionLockedAPI (''[!] Error: '' @ message r))
      \<and> last (requests st') = Ridelogs ''created'' region_id 500 k"
    using ridecounts_locked [of w name st st' res region_id k r] by simp
  then show "res = Inl (RegionLockedAPI (''[!] Error: '' @ message r))"
    and "last (requests st') = Ridelogs ''created'' region_id 500 k"
    by simp_all
next
  fix st' res region_id r
  assume "get_all_region_trails w name st = (st', res)
      \<and> Trails region_id 100 \<in> set (issued st st')
      \<and> trail_rows w region_id 100 = Inr r \<and> status_code r = 401"
  then have "res = Inl (RegionLockedAPI (''[!] Error: '' @ message r))
      \<and> last (requests st') = Trails region_id 100"
    using trails_locked [of w name st st' res region_id r] by simp
  then show "res = Inl (RegionLockedAPI (''[!] Error: '' @ message r))"
    and "last (requests st') = Trails region_id 100"
    by simp_all
next
  fix st' res region_id k r
  assume "get_all_region_ridelogs w name pages st = (st', res)
      \<and> Ridelogs ridelog_fields region_id 100 k \<in> set (issued st st')
      \<and> ridelog_rows w region_id 100 k = Inr r \<and> status_code r = 401"
  then have "res = Inl (RegionLockedAPI (''[!] Error: '' @ message r))
      \<and> last (requests st') = Ridelogs ridelog_fields region_id 100 k"
    using ridelogs_locked [of w name pages st st' res region_id k r] by simp
  then show "res = Inl (RegionLockedAPI (''[!] Error: '' @ message r))"
    and "last (requests st') = Ridelogs ridelog_fields region_id 100 k"
    by simp_all
next
  fix st' res k r
  assume "get_all_trailforks_regions w st = (st', res)
      \<and> RegionsPage 500 k \<in> set (issued st st')
      \<and> region_rows w 500 k = Inr r \<and> status_code r = 401"
  then have "res = Inl (RegionLockedAPI (''[!] Error: '' @ message r))
      \<and> last (requests st') = RegionsPage 500 k"
    using regions_locked [of w st st' res k r] by simp
  then show "res = Inl (RegionLockedAPI (''[!] Error: '' @ message r))"
    and "last (requests st') = RegionsPage 500 k"
    by simp_all
qed

text \<open>The four fetchers where the second page, or the only one, is locked.\<close>

theorem locked_page_aborts_fetch_witness:
  "snd (get_region_ridecounts locked_api ''lebanon-hills'' start)
     = Inl (RegionLockedAPI ''[!] Error: Unauthorized'')
   \<and> last (requests (fst (get_region_ridecounts locked_api ''lebanon-hills'' start)))
     = Ridelogs ''created'' 3112 500 1
   \<and> snd (get_all_region_trails locked_api ''lebanon-hills'' start)
     = Inl (RegionLockedAPI ''[!] Error: Unauthorized'')
   \<and> last (requests (fst (get_all_region_trails locked_api ''lebanon-hills'' start)))
     = Trails 3112 100
   \<and> snd (get_all_region_ridelogs locked_api ''lebanon-hills'' 3 start)
     = Inl (RegionLockedAPI ''[!] Error: Unauthorized'')
   \<and> last (requests (fst (get_all_region_ridelogs locked_api ''lebanon-hills'' 3 start)))
     = Ridelogs ridelog_fields 3112 100 1
   \<and> snd (get_all_trailforks_regions locked_api start)
     = Inl (RegionLockedAPI ''[!] Error: Unauthorized'')
   \<and> last (requests (fst (get_all_trailforks_regions locked_api start)))
     = RegionsPage 500 1"
proof -
  let ?locked = "\<lparr>status_code = 401, message = ''Unauthorized'', data = []\<rparr>"
  have h1: "get_region_ridecounts locked_api ''lebanon-hills'' start
        = (fst (get_region_ridecounts locked_api ''lebanon-hills'' start),
           snd (get_region_ridecounts locked_api ''lebanon-hills'' start))
      \<and> Ridelogs ''created'' 3112 500 1
          \<in> set (issued start (fst (get_region_ridecounts locked_api ''lebanon-hills'' start)))
      \<and> ridelog_created locked_api 3112 500 1 = Inr ?locked \<and> status_code ?locked = 401"
    by (simp add: locked_ridecounts_run issued_def start_fields locked_answers locked_response_def)
  have h2: "get_all_region_trails locked_api ''lebanon-hills'' start
        = (fst (get_all_region_trails locked_api ''lebanon-hills'' start),
           snd (get_all_region_trails locked_api ''lebanon-hills'' start))
      \<and> Trails 3112 100
          \<in> set (issued start (fst (get_all_region_trails locked_api ''lebanon-hills'' start)))
      \<and> trail_rows locked_api 3112 100 = Inr ?locked \<and> status_code ?locked = 401"
    by (simp add: locked_trails_run issued_def start_fields locked_answers locked_response_def)
  have h3: "get_all_region_ridelogs locked_api ''lebanon-hills'' 3 start
        = (fst (get_all_region_ridelogs locked_api ''lebanon-hills'' 3 start),
           snd (get_all_region_ridelogs locked_api ''lebanon-hills'' 3 start))
      \<and> Ridelogs ridelog_fields 3112 100 1
          \<in> set (issued start (fst (get_all_region_ridelogs locked_api ''lebanon-hills'' 3 start)))
      \<and> ridelog_rows locked_api 3112 100 1 = Inr ?locked \<and> status_code ?locked = 401"
    by (simp add: locked_ridelogs_run issued_def start_fields locked_answers locked_response_def)
  have h4: "get_all_trailforks_regions locked_api start
        = (fst (get_all_trailforks_regions locked_api start),
           snd (get_all_trailforks_regions locked_api start))
      \<and> RegionsPage 500 1
          \<in> set (issued start (fst (get_all_trailforks_regions locked_api start)))
      \<and> region_rows locked_api 500 1 = Inr ?locked \<and> status_code ?locked = 401"
    by (simp add: locked_regions_run issued_def start_fields locked_answers locked_response_def)
  note t = locked_page_aborts_fetch [where w = locked_api and name = "''lebanon-hills''"
      and st = start and pages = 3]
  note c1 = t [THEN conjunct1, rule_format, OF h1]
  note c2 = t [THEN conjunct2, THEN conjunct1, rule_format, OF h2]
  note c3 = t [THEN conjunct2, THEN conjunct2, THEN conjunct1, rule_format, OF h3]
  note c4 = t [THEN conjunct2, THEN conjunct2, THEN conjunct2, rule_format, OF h4]
  from c1 c2 c3 c4 show ?thesis by simp
qed

subsection \<open>The ride-counts loop\<close>

lemma pages_needed_covers: "t \<le> 500 * int (pages_needed t)"
proof -
  have m: "(t + 499) mod 500 < 500" by simp
  have "t + 499 = 500 * ((t + 499) div 500) + (t + 499) mod 500" by simp
  with m have "t \<le> 500 * ((t + 499) div 500)" by linarith
  also have "\<dots> \<le> 500 * int (nat ((t + 499) div 500))" by simp
  finally show ?thesis by (simp add: pages_needed_def)
qed

lemma pages_needed_least: "j < pages_needed t \<Longrightarrow> 500 * int j < t"
proof -
  assume "j < pages_needed t"
  then have j: "int j + 1 \<le> (t + 499) div 500"
    by (simp add: pages_needed_def)
  have m: "0 \<le> (t + 499) mod 500" by simp
  have "t + 499 = 500 * ((t + 499) div 500) + (t + 499) mod 500" by simp
  with m have "500 * ((t + 499) div 500) \<le> t + 499" by linarith
  with j show ?thesis by linarith
qed

lemma upt_split: "k < n \<Longrightarrow> [0 ..< n] = [0 ..< k] @ k # [Suc k ..< n]"
  by (metis less_imp_le_nat upt_add_eq_append upt_conv_Cons le_add_diff_inverse zero_le)

lemma fetch_pages_first_bad:
  assumes "k < n" "\<forall>p<k. page_ok (answer p)" "\<not> page_ok (answer k)"
  shows "fetch_pages mk answer [0 ..< n] dfs st =
     (st\<lparr>requests := requests st @ map mk [0 ..< Suc k]\<rparr>, Inl (page_error (answer k)))"
proof -
  from assms(2) have "\<forall>p\<in>set [0 ..< k]. page_ok (answer p)" by simp
  from dropWhile_split [OF upt_split [OF assms(1)] this] assms(3)
  have d: "dropWhile (\<lambda>p. page_ok (answer p)) [0 ..< n] = k # [Suc k ..< n]"
    and t: "takeWhile (\<lambda>p. page_ok (answer p)) [0 ..< n] = [0 ..< k]"
    by simp_all
  show ?thesis by (simp add: fetch_pages_closed d t)
qed

lemma demo_created_ok: "page_ok (ridelog_created demo_api 3112 500 p)"
  by (simp add: demo_api_def ok_response_def page_ok_def)

lemma pages_needed_1200: "pages_needed 1200 = 3"
  by (simp add: pages_needed_def)

lemma locked_loop_run:
  "ridecounts_loop locked_api 3112 1200 0 0 [] start =
     (\<lparr>requests = [Ridelogs ''created'' 3112 500 0, Ridelogs ''created'' 3112 500 1],
       files = (\<lambda>name. None)\<rparr>,
      Inl (RegionLockedAPI ''[!] Error: Unauthorized''))"
proof -
  have r: "[0 ..< 3] = [0, 1, 2::nat]" by (simp add: upt_rec)
  have a: "ridelog_created locked_api 3112 500 0 = ok_response [1660435200]"
    by (simp add: locked_api_def demo_api_def)
  have "fetch_pages (Ridelogs ''created'' 3112 500) (ridelog_created locked_api 3112 500)
          [0, 1, 2] [] start
      = (\<lparr>requests = [Ridelogs ''created'' 3112 500 0, Ridelogs ''created'' 3112 500 1],
          files = (\<lambda>name. None)\<rparr>,
         Inl (RegionLockedAPI ''[!] Error: Unauthorized''))"
    by (simp add: fetch_eq a locked_answers ok_response_def locked_response_def
        page_ok_def page_data_def page_error_def start_def)
  then show ?thesis
    using ridecounts_loop_fetch_pages [of locked_api 3112 1200 0 0 "[]" start]
    by (simp add: pages_needed_1200 r)
qed

text \<open>
  Claim C2, as amended. The loop ends for every reported total: \<open>ridecounts_loop\<close> is a
  total function, its termination proved above with the measure total minus counter, and
  it issues at most \<open>pages_needed t\<close> requests. The rows fetched so far are counted as
  500 for each page fetched. If every page up to
  \<open>pages_needed t\<close> is answered with a status other than 401, the loop requests exactly the
  pages 0 to \<open>pages_needed t - 1\<close>, in ascending order, and leaves through its test: at
  the first value of the counter that is not below the total (every iteration was entered
  with the counter below the total). Otherwise the first page that raises or is answered
  with 401 ends the loop, after the request of that page, with the exception. The last
  part ties the total to the region's detail record in \<open>get_region_ridecounts\<close>.
\<close>

theorem ridecounts_loop_ends:
  "((\<forall>p<pages_needed t. page_ok (ridelog_created w i 500 p)) \<longrightarrow>
      ridecounts_loop w i t 0 0 [] st =
        (st\<lparr>requests := requests st
            @ map (Ridelogs ''created'' i 500) [0 ..< pages_needed t]\<rparr>,
         Inr (map (\<lambda>p. page_data (ridelog_created w i 500 p)) [0 ..< pages_needed t])))
   \<and> t \<le> 500 * int (pages_needed t)
   \<and> (\<forall>j<pages_needed t. 500 * int j < t)
   \<and> (\<forall>k<pages_needed t.
         (\<forall>p<k. page_ok (ridelog_created w i 500 p)) \<and> \<not> page_ok (ridelog_created w i 500 k) \<longrightarrow>
         ridecounts_loop w i t 0 0 [] st =
           (st\<lparr>requests := requests st @ map (Ridelogs ''created'' i 500) [0 ..< Suc k]\<rparr>,
            Inl (page_error (ridelog_created w i 500 k))))
   \<and> (\<forall>name. region_known w name i \<and> page_ok (region_by_id w i)
         \<and> ridden (page_data (region_by_id w i)) = t
         \<and> (\<forall>p<pages_needed t. page_ok (ridelog_created w i 500 p)) \<longrightarrow>
         issued st (fst (get_region_ridecounts w name st)) =
           [RegionsByAlias name, RegionsByAlias name, RegionDetail i]
           @ map (Ridelogs ''created'' i 500) [0 ..< pages_needed t])"
proof (intro conjI allI impI)
  assume "\<forall>p<pages_needed t. page_ok (ridelog_created w i 500 p)"
  then have ok: "\<forall>p\<in>set [0 ..< pages_needed t]. page_ok (ridelog_created w i 500 p)"
    by simp
  show "ridecounts_loop w i t 0 0 [] st =
        (st\<lparr>requests := requests st
            @ map (Ridelogs ''created'' i 500) [0 ..< pages_needed t]\<rparr>,
         Inr (map (\<lambda>p. page_data (ridelog_created w i 500 p)) [0 ..< pages_needed t]))"
    using ridecounts_loop_fetch_pages [of w i t 0 0 "[]" st] fetch_pages_all_ok [OF ok]
    by simp
next
  show "t \<le> 500 * int (pages_needed t)" by (rule pages_needed_covers)
next
  fix j assume "j < pages_needed t"
  then show "500 * int j < t" by (rule pages_needed_least)
next
  fix k
  assume "k < pages_needed t"
    and "(\<forall>p<k. page_ok (ridelog_created w i 500 p)) \<and> \<not> page_ok (ridelog_created w i 500 k)"
  then show "ridecounts_loop w i t 0 0 [] st =
           (st\<lparr>requests := requests st @ map (Ridelogs ''created'' i 500) [0 ..< Suc k]\<rparr>,
            Inl (page_error (ridelog_created w i 500 k)))"
    using ridecounts_loop_fetch_pages [of w i t 0 0 "[]" st]
      fetch_pages_first_bad [of k "pages_needed t" "ridelog_created w i 500"]
    by simp
next
  fix name
  assume h: "region_known w name i \<and> page_ok (region_by_id w i)
         \<and> ridden (page_data (region_by_id w i)) = t
         \<and> (\<forall>p<pages_needed t. page_ok (ridelog_created w i 500 p))"
  then have known: "region_known w name i" and info: "page_ok (region_by_id w i)"
    and t: "ridden (page_data (region_by_id w i)) = t" by simp_all
  from h have ok: "\<forall>p\<in>set [0 ..< pages_needed t]. page_ok (ridelog_created w i 500 p)"
    by simp
  show "issued st (fst (get_region_ridecounts w name st)) =
           [RegionsByAlias name, RegionsByAlias name, RegionDetail i]
           @ map (Ridelogs ''created'' i 500) [0 ..< pages_needed t]"
    by (simp add: get_region_ridecounts_known [OF known info] t fetch_pages_all_ok [OF ok]
        issued_def)
qed

text \<open>
  A total of 1200 rides: three pages are requested although they hold three rows in all,
  and the loop stops at the counter 1500. In the locked world the second page ends the
  loop.
\<close>

theorem ridecounts_loop_ends_witness:
  "ridecounts_loop demo_api 3112 1200 0 0 [] start =
     (\<lparr>requests = [Ridelogs ''created'' 3112 500 0, Ridelogs ''created'' 3112 500 1,
                    Ridelogs ''created'' 3112 500 2],
       files = (\<lambda>name. None)\<rparr>,
      Inr [[1660435200, 1660348800], [1660500000], []])
   \<and> (1200::int) \<le> 500 * 3 \<and> 500 * 2 < (1200::int)
   \<and> ridecounts_loop locked_api 3112 1200 0 0 [] start =
     (\<lparr>requests = [Ridelogs ''created'' 3112 500 0, Ridelogs ''created'' 3112 500 1],
       files = (\<lambda>name. None)\<rparr>,
      Inl (RegionLockedAPI ''[!] Error: Unauthorized''))"
proof -
  note t = ridecounts_loop_ends [where t = 1200 and i = 3112 and st = start]
  have ok: "\<forall>p<pages_needed 1200. page_ok (ridelog_created demo_api 3112 500 p)"
    by (simp add: demo_created_ok)
  note a = t [where w = demo_api, THEN conjunct1, THEN mp, OF ok]
  note b = t [where w = demo_api, THEN conjunct2, THEN conjunct1]
  have two: "2 < pages_needed 1200" by (simp add: pages_needed_1200)
  note c = t [where w = demo_api, THEN conjunct2, THEN conjunct2, THEN conjunct1, rule_format,
      OF two]
  have one: "1 < pages_needed 1200" by (simp add: pages_needed_1200)
  have bad: "(\<forall>p<1. page_ok (ridelog_created locked_api 3112 500 p))
      \<and> \<not> page_ok (ridelog_created locked_api 3112 500 1)"
    by (simp add: locked_api_def demo_api_def ok_response_def locked_response_def page_ok_def)
  note d = t [where w = locked_api, THEN conjunct2, THEN conjunct2, THEN conjunct2,
      THEN conjunct1, rule_format, OF one bad]
  have r: "[0 ..< 3] = [0, 1, 2::nat]" "[0 ..< Suc 1] = [0, 1::nat]" by (simp_all add: upt_rec)
  have pd: "page_data (ridelog_created demo_api 3112 500 0) = [1660435200, 1660348800]"
    "page_data (ridelog_created demo_api 3112 500 (Suc 0)) = [1660500000]"
    "page_data (ridelog_created demo_api 3112 500 2) = []"
    by (simp_all add: demo_api_def ok_response_def page_data_def)
  have pe: "page_error (ridelog_created locked_api 3112 500 (Suc 0))
      = RegionLockedAPI ''[!] Error: Unauthorized''"
    by (simp add: locked_answers locked_response_def page_error_def)
  from a b c d show ?thesis
    by (simp add: pages_needed_1200 r pd pe start_fields start_def)
qed

text \<open>
  The claim as worded, that the loop ends exactly when the counter has reached the total,
  fails when a page is answered with status 401: with a total of 1200 the loop ends after
  the requests of two pages, and two pages of 500 rows are fewer than 1200 rows.
\<close>

theorem ridecounts_loop_locked_counterexample:
  "ridecounts_loop locked_api 3112 1200 0 0 [] start =
     (\<lparr>requests = [Ridelogs ''created'' 3112 500 0, Ridelogs ''created'' 3112 500 1],
       files = (\<lambda>name. None)\<rparr>,
      Inl (RegionLockedAPI ''[!] Error: Unauthorized''))
   \<and> (500::int) * 2 < 1200"
  by (simp add: locked_loop_run)

subsection \<open>The ride-count table\<close>

lemma groupby_count_keys: "set (map fst (groupby_count ks)) = set ks"
  by (induction ks rule: groupby_count.induct) auto

lemma groupby_count_distinct: "distinct (map fst (groupby_count ks))"
proof (induction ks rule: groupby_count.induct)
  case 1
  show ?case by simp
next
  case (2 k ks)
  have "k \<notin> set (map fst (groupby_count (filter (\<lambda>x. x \<noteq> k) ks)))"
    unfolding groupby_count_keys by simp
  with 2 show ?case by simp
qed

lemma filter_other:
  "d \<noteq> k \<Longrightarrow> filter (\<lambda>x. x = d) (filter (\<lambda>x. x \<noteq> k) ks) = filter (\<lambda>x. x = d) ks"
  by (induction ks) auto

lemma groupby_count_counts:
  "(d, n) \<in> set (groupby_count ks) \<Longrightarrow> n = length (filter (\<lambda>x. x = d) ks)"
proof (induction ks rule: groupby_count.induct)
  case 1
  then show ?case by simp
next
  case (2 k ks)
  let ?rest = "groupby_count (filter (\<lambda>x. x \<noteq> k) ks)"
  from "2.prems" have mem:
    "(d = k \<and> n = Suc (length (filter (\<lambda>x. x = k) ks))) \<or> (d, n) \<in> set ?rest"
    by simp
  show ?case
  proof (cases "d = k")
    case True
    have "k \<notin> fst ` set ?rest"
      using groupby_count_keys [of "filter (\<lambda>x. x \<noteq> k) ks"] by simp
    then have "(k, n) \<notin> set ?rest"
      by force
    with mem True have "n = Suc (length (filter (\<lambda>x. x = k) ks))" by blast
    with True show ?thesis by simp
  next
    case False
    with mem have "(d, n) \<in> set ?rest" by blast
    then have "n = length (filter (\<lambda>x. x = d) (filter (\<lambda>x. x \<noteq> k) ks))"
      by (rule "2.IH")
    also have "filter (\<lambda>x. x = d) (filter (\<lambda>x. x \<noteq> k) ks) = filter (\<lambda>x. x = d) ks"
      using False by (rule filter_other)
    finally show ?thesis using False by simp
  qed
qed

lemma sort_index_descending_set: "set (sort_index_descending entries) = set entries"
  by (simp add: sort_index_descending_def)

lemma sort_index_descending_order:
  assumes "distinct (map fst entries)"
  shows "sorted_wrt (\<lambda>a b. a > b) (map fst (sort_index_descending entries))"
    and "distinct (map fst (sort_index_descending entries))"
proof -
  from assms have d: "distinct entries" and inj: "inj_on fst (set entries)"
    by (simp_all add: distinct_map)
  then have ds: "distinct (map fst (sort_key fst entries))"
    by (simp add: distinct_map)
  have "sorted (map fst (sort_key fst entries))" by (rule sorted_sort_key)
  with ds have "sorted_wrt (\<lambda>a b. a < b) (map fst (sort_key fst entries))"
    by (simp add: strict_sorted_iff)
  then show "sorted_wrt (\<lambda>a b. a > b) (map fst (sort_index_descending entries))"
    by (simp add: sort_index_descending_def rev_map [symmetric] sorted_wrt_rev)
  from ds show "distinct (map fst (sort_index_descending entries))"
    by (simp add: sort_index_descending_def rev_map [symmetric])
qed

lemma find_year_fst_ge: "y \<le> fst (find_year z y s n)"
proof (induction n arbitrary: y s)
  case 0 show ?case by simp
next
  case (Suc n)
  from Suc [of "y + 1" "s + year_length y"] show ?case by simp
qed

lemma find_year_fst_le: "fst (find_year z y s n) \<le> y + int n"
proof (induction n arbitrary: y s)
  case 0 show ?case by simp
next
  case (Suc n)
  from Suc [of "y + 1" "s + year_length y"] show ?case by simp
qed

lemma find_year_snd_nonneg: "s \<le> z \<Longrightarrow> 0 \<le> snd (find_year z y s n)"
proof (induction n arbitrary: y s)
  case 0 then show ?case by simp
next
  case (Suc n)
  from Suc.IH [of "s + year_length y" "y + 1"] Suc.prems show ?case by simp
qed

lemma find_year_snd_less:
  "snd (find_year z y s n) < year_length (fst (find_year z y s n))
   \<or> fst (find_year z y s n) = y + int n"
proof (induction n arbitrary: y s)
  case 0 show ?case by simp
next
  case (Suc n)
  from Suc [of "y + 1" "s + year_length y"] show ?case by auto
qed

lemma find_year_mono:
  "z < z' \<Longrightarrow>
   fst (find_year z y s n) < fst (find_year z' y s n)
   \<or> (fst (find_year z y s n) = fst (find_year z' y s n)
       \<and> snd (find_year z y s n) < snd (find_year z' y s n))"
proof (induction n arbitrary: y s)
  case 0 then show ?case by simp
next
  case (Suc n)
  show ?case
  proof (cases "z < s + year_length y")
    case True
    show ?thesis
    proof (cases "z' < s + year_length y")
      case True
      with \<open>z < s + year_length y\<close> Suc.prems show ?thesis by simp
    next
      case False
      from find_year_fst_ge [of "y + 1" z' "s + year_length y" n]
      have "y < fst (find_year z' (y + 1) (s + year_length y) n)" by simp
      with True False show ?thesis by simp
    qed
  next
    case False
    with Suc.prems have "\<not> z' < s + year_length y" by simp
    with False Suc.IH [OF Suc.prems, of "y + 1" "s + year_length y"] show ?thesis by simp
  qed
qed

lemma find_month_fst_ge: "m \<le> fst (find_month r m ls)"
proof (induction ls arbitrary: r m)
  case Nil show ?case by simp
next
  case (Cons l ls)
  from Cons [of "m + 1" "r - l"] show ?case by simp
qed

lemma find_month_mono:
  "r < r' \<Longrightarrow>
   fst (find_month r m ls) < fst (find_month r' m ls)
   \<or> (fst (find_month r m ls) = fst (find_month r' m ls)
       \<and> snd (find_month r m ls) < snd (find_month r' m ls))"
proof (induction ls arbitrary: r r' m)
  case Nil then show ?case by simp
next
  case (Cons l ls)
  show ?case
  proof (cases "r < l")
    case True
    show ?thesis
    proof (cases "r' < l")
      case True
      with \<open>r < l\<close> Cons.prems show ?thesis by simp
    next
      case False
      from find_month_fst_ge [of "m + 1" "r' - l" ls]
      have "m < fst (find_month (r' - l) (m + 1) ls)" by simp
      with True False show ?thesis by simp
    qed
  next
    case False
    with Cons.prems have "\<not> r' < l" by simp
    from Cons.prems have "r - l < r' - l" by simp
    from Cons.IH [OF this, of "m + 1"] False \<open>\<not> r' < l\<close> show ?thesis by simp
  qed
qed

lemma find_month_bounds:
  "0 \<le> r \<Longrightarrow> r < sum_list ls \<Longrightarrow>
   m \<le> fst (find_month r m ls) \<and> fst (find_month r m ls) < m + int (length ls)
   \<and> 1 \<le> snd (find_month r m ls)
   \<and> snd (find_month r m ls) \<le> ls ! nat (fst (find_month r m ls) - m)"
proof (induction ls arbitrary: r m)
  case Nil then show ?case by simp
next
  case (Cons l ls)
  show ?case
  proof (cases "r < l")
    case True
    with Cons.prems show ?thesis by simp
  next
    case False
    with Cons.prems have a: "0 \<le> r - l" "r - l < sum_list ls" by simp_all
    from Cons.IH [OF a, of "m + 1"]
    have b: "m + 1 \<le> fst (find_month (r - l) (m + 1) ls)"
      "fst (find_month (r - l) (m + 1) ls) < m + 1 + int (length ls)"
      "1 \<le> snd (find_month (r - l) (m + 1) ls)"
      "snd (find_month (r - l) (m + 1) ls)
         \<le> ls ! nat (fst (find_month (r - l) (m + 1) ls) - (m + 1))"
      by simp_all
    from b(1) have "nat (fst (find_month (r - l) (m + 1) ls) - m)
        = Suc (nat (fst (find_month (r - l) (m + 1) ls) - (m + 1)))"
      by simp
    with b False show ?thesis by simp
  qed
qed

lemma sum_month_lengths: "sum_list (month_lengths y) = year_length y"
  by (simp add: month_lengths_def year_length_def)

lemma civil_first: "find_year (- 106752) 1677 (- 107015) 585 = (1677, 263)"
  by code_simp

lemma civil_last: "find_year 106751 1677 (- 107015) 585 = (2262, 100)"
  by code_simp


lemma civil_year_doy:
  assumes "- 106752 \<le> z" "z \<le> 106751"
  shows "1677 \<le> fst (find_year z 1677 (- 107015) 585)"
    "fst (find_year z 1677 (- 107015) 585) \<le> 2262"
    "0 \<le> snd (find_year z 1677 (- 107015) 585)"
    "snd (find_year z 1677 (- 107015) 585)
       < year_length (fst (find_year z 1677 (- 107015) 585))"
proof -
  let ?f = "find_year z 1677 (- 107015) 585"
  show "1677 \<le> fst ?f" by (rule find_year_fst_ge)
  from find_year_fst_le [of z 1677 "- 107015" 585] show "fst ?f \<le> 2262" by simp
  from assms show "0 \<le> snd ?f" by (intro find_year_snd_nonneg) simp
  show "snd ?f < year_length (fst ?f)"
  proof (cases "z = 106751")
    case True
    then show ?thesis by (simp add: civil_last year_length_def)
  next
    case False
    with assms have "z < 106751" by simp
    from find_year_mono [OF this, of 1677 "- 107015" 585]
    have "fst ?f < 2262 \<or> (fst ?f = 2262 \<and> snd ?f < 100)" by (simp add: civil_last)
    moreover from find_year_snd_less [of z 1677 "- 107015" 585]
    have "snd ?f < year_length (fst ?f) \<or> fst ?f = 2262" by simp
    ultimately show ?thesis by (auto simp add: year_length_def)
  qed
qed

lemma month_length_le: "i < 12 \<Longrightarrow> month_lengths y ! i \<le> 31"
proof -
  assume "i < 12"
  then have "i = 0 \<or> i = 1 \<or> i = 2 \<or> i = 3 \<or> i = 4 \<or> i = 5 \<or> i = 6 \<or> i = 7
      \<or> i = 8 \<or> i = 9 \<or> i = 10 \<or> i = 11" by arith
  then show ?thesis by (auto simp add: month_lengths_def)
qed

lemma civil_from_days_bounds:
  assumes "- 106752 \<le> z" "z \<le> 106751" "civil_from_days z = (y, m, d)"
  shows "1677 \<le> y" "y \<le> 2262" "1 \<le> m" "m \<le> 12" "1 \<le> d"
    "d \<le> month_lengths y ! nat (m - 1)" "d \<le> 31"
proof -
  obtain y' r where f: "find_year z 1677 (- 107015) 585 = (y', r)" by (cases "find_year z 1677 (- 107015) 585")
  obtain m' d' where g: "find_month r 1 (month_lengths y') = (m', d')" by (cases "find_month r 1 (month_lengths y')")
  from assms(3) f g have e: "y = y'" "m = m'" "d = d'" by (simp_all add: civil_from_days_def)
  from civil_year_doy [OF assms(1,2)] f
  have yb: "1677 \<le> y'" "y' \<le> 2262" "0 \<le> r" "r < year_length y'" by simp_all
  from find_month_bounds [of r "month_lengths y'" 1] yb g
  have mb: "1 \<le> m'" "m' < 1 + int (length (month_lengths y'))" "1 \<le> d'"
    "d' \<le> month_lengths y' ! nat (m' - 1)"
    by (simp_all add: sum_month_lengths)
  have l: "length (month_lengths y') = 12" by (simp add: month_lengths_def)
  from yb e show "1677 \<le> y" "y \<le> 2262" by simp_all
  from mb e l show "1 \<le> m" "m \<le> 12" "1 \<le> d" "d \<le> month_lengths y ! nat (m - 1)" by simp_all
  from mb l have "nat (m' - 1) < 12" by simp
  from month_length_le [OF this, of y'] mb(4) e show "d \<le> 31" by simp
qed

lemma civil_from_days_mono:
  assumes "z < z'"
  shows "earlier (civil_from_days z) (civil_from_days z')"
proof -
  obtain y r where f: "find_year z 1677 (- 107015) 585 = (y, r)" by (cases "find_year z 1677 (- 107015) 585")
  obtain y' r' where f': "find_year z' 1677 (- 107015) 585 = (y', r')" by (cases "find_year z' 1677 (- 107015) 585")
  obtain m d where g: "find_month r 1 (month_lengths y) = (m, d)" by (cases "find_month r 1 (month_lengths y)")
  obtain m' d' where g': "find_month r' 1 (month_lengths y') = (m', d')" by (cases "find_month r' 1 (month_lengths y')")
  from find_year_mono [OF assms, of 1677 "- 107015" 585] f f'
  have c: "y < y' \<or> (y = y' \<and> r < r')" by simp
  have "y < y' \<or> y = y' \<and> (m < m' \<or> m = m' \<and> d < d')"
  proof (cases "y < y'")
    case True then show ?thesis by simp
  next
    case False
    with c have e: "y = y'" "r < r'" by simp_all
    from find_month_mono [OF e(2), of 1 "month_lengths y"] g g' e(1)
    show ?thesis by simp
  qed
  with f f' g g' show ?thesis by (simp add: civil_from_days_def earlier_def)
qed

lemma length_zero_padded: "length (zero_padded w n) = w"
  by (induction w arbitrary: n) simp_all

lemma decimal_snoc: "decimal (s @ [c]) = 10 * decimal s + (of_char c - 48)"
  by (simp add: decimal_def)

lemma of_char_digit: "k < 10 \<Longrightarrow> (of_char (char_of (48 + k :: nat)) :: nat) = 48 + k"
  by simp

lemma decimal_zero_padded: "decimal (zero_padded w n) = n mod 10 ^ w"
proof (induction w arbitrary: n)
  case 0 show ?case by (simp add: decimal_def)
next
  case (Suc w)
  have "(of_char (char_of (48 + n mod 10)) :: nat) = 48 + n mod 10"
    by (rule of_char_digit) simp
  then have "decimal (zero_padded (Suc w) n) = 10 * (n div 10 mod 10 ^ w) + n mod 10"
    by (simp add: decimal_snoc Suc.IH)
  also have "\<dots> = n mod 10 ^ Suc w"
    by (simp add: mod_mult2_eq)
  finally show ?case .
qed

lemma digits_zero_padded: "list_all is_digit (zero_padded w n)"
proof (induction w arbitrary: n)
  case 0 show ?case by simp
next
  case (Suc w)
  have "(of_char (char_of (48 + n mod 10)) :: nat) = 48 + n mod 10"
    by (rule of_char_digit) simp
  then have "is_digit (char_of (48 + n mod 10))"
    unfolding is_digit_def by (simp add: Let_def)
  with Suc show ?case by simp
qed

lemma append_less_same_length:
  "length xs = length ys \<Longrightarrow>
   (xs @ us < ys @ vs \<longleftrightarrow> xs < ys \<or> xs = ys \<and> us < vs)"
  by (induction xs ys rule: list_induct2) auto

lemma digit_less:
  "a < b \<Longrightarrow> b < 10 \<Longrightarrow> char_of (48 + a :: nat) < char_of (48 + b :: nat)"
  by (simp add: less_char_def)

lemma zero_padded_less:
  "n < m \<Longrightarrow> m < 10 ^ w \<Longrightarrow> zero_padded w n < zero_padded w m"
proof (induction w arbitrary: n m)
  case 0 then show ?case by simp
next
  case (Suc w)
  have len: "length (zero_padded w (n div 10)) = length (zero_padded w (m div 10))"
    by (simp add: length_zero_padded)
  from Suc.prems have le: "n div 10 \<le> m div 10" by (simp add: div_le_mono)
  from Suc.prems have b: "m div 10 < 10 ^ w" by (simp add: less_mult_imp_div_less mult.commute)
  show ?case
  proof (cases "n div 10 < m div 10")
    case True
    from Suc.IH [OF True b] show ?thesis
      by (simp add: append_less_same_length [OF len])
  next
    case False
    with le have e: "n div 10 = m div 10" by simp
    with Suc.prems(1) have "n mod 10 < m mod 10"
      by (metis div_mult_mod_eq nat_add_left_cancel_less)
    then have "char_of (48 + n mod 10) < (char_of (48 + m mod 10) :: char)"
      by (rule digit_less) simp
    with e show ?thesis by (simp add: append_less_same_length)
  qed
qed

lemma strftime_ymd_less:
  assumes "earlier (y, m, d) (y', m', d')"
    and "0 \<le> y" "y' < 10000" "0 \<le> m" "m' < 100" "0 \<le> d" "d' < 100"
  shows "strftime_ymd (y, m, d) < strftime_ymd (y', m', d')"
proof -
  have l4: "length (zero_padded 4 (nat y)) = length (zero_padded 4 (nat y'))"
    by (simp only: length_zero_padded)
  have l2: "length (zero_padded 2 (nat m)) = length (zero_padded 2 (nat m'))"
    by (simp only: length_zero_padded)
  have yl: "y < y' \<Longrightarrow> zero_padded 4 (nat y) < zero_padded 4 (nat y')"
    using assms(2,3) by (intro zero_padded_less) simp_all
  have ml: "m < m' \<Longrightarrow> zero_padded 2 (nat m) < zero_padded 2 (nat m')"
    using assms(4,5) by (intro zero_padded_less) simp_all
  have dl: "d < d' \<Longrightarrow> zero_padded 2 (nat d) < zero_padded 2 (nat d')"
    using assms(6,7) by (intro zero_padded_less) simp_all
  have tail: "m < m' \<or> m = m' \<and> d < d' \<Longrightarrow>
      CHR ''-'' # zero_padded 2 (nat m) @ CHR ''-'' # zero_padded 2 (nat d)
      < CHR ''-'' # zero_padded 2 (nat m') @ CHR ''-'' # zero_padded 2 (nat d')"
    using ml dl by (auto simp add: append_less_same_length [OF l2])
  from assms(1) have "y < y' \<or> y = y' \<and> (m < m' \<or> m = m' \<and> d < d')"
    by (simp add: earlier_def)
  then show ?thesis
    unfolding strftime_ymd_def prod.case
    using yl tail by (auto simp add: append_less_same_length [OF l4])
qed

lemma to_datetime_strftime:
  assumes "0 \<le> y" "y < 10000" "0 \<le> m" "m < 100" "0 \<le> d" "d < 100"
  shows "to_datetime_ymd (strftime_ymd (y, m, d)) = (y, m, d)"
proof -
  have a: "take 4 (strftime_ymd (y, m, d)) = zero_padded 4 (nat y)"
    by (simp add: strftime_ymd_def length_zero_padded)
  have b: "take 2 (drop 5 (strftime_ymd (y, m, d))) = zero_padded 2 (nat m)"
    by (simp add: strftime_ymd_def length_zero_padded)
  have c: "take 2 (drop 8 (strftime_ymd (y, m, d))) = zero_padded 2 (nat d)"
    by (simp add: strftime_ymd_def length_zero_padded)
  from assms have "nat y < 10 ^ 4" "nat m < 10 ^ 2" "nat d < 10 ^ 2" by simp_all
  then have "nat y mod 10 ^ 4 = nat y" "nat m mod 10 ^ 2 = nat m" "nat d mod 10 ^ 2 = nat d"
    by (simp_all only: mod_less)
  with assms show ?thesis
    unfolding to_datetime_ymd_def a b c decimal_zero_padded by simp
qed

lemma strftime_parts:
  "length (strftime_ymd (y, m, d)) = 10"
  "take 4 (strftime_ymd (y, m, d)) = zero_padded 4 (nat y)"
  "take 2 (drop 5 (strftime_ymd (y, m, d))) = zero_padded 2 (nat m)"
  "take 2 (drop 8 (strftime_ymd (y, m, d))) = zero_padded 2 (nat d)"
  "strftime_ymd (y, m, d) ! 4 = CHR ''-''"
  "strftime_ymd (y, m, d) ! 7 = CHR ''-''"
  by (simp_all add: strftime_ymd_def length_zero_padded nth_append)

lemma day_in_range:
  "in_bounds a \<Longrightarrow> - 106752 \<le> a div 86400 \<and> a div 86400 \<le> 106751"
proof -
  assume "in_bounds a"
  then have b: "- 9223372036 \<le> a" "a \<le> 9223372036" by (simp_all add: in_bounds_def)
  from zdiv_mono1 [OF b(1), of 86400] have "- 106752 \<le> a div 86400" by simp
  moreover from zdiv_mono1 [OF b(2), of 86400] have "a div 86400 \<le> 106751" by simp
  ultimately show ?thesis by simp
qed

lemma date_of_less:
  assumes "in_bounds a" "in_bounds b" "a div 86400 < b div 86400"
  shows "date_of a < date_of b"
proof -
  obtain y m d where c: "civil_from_days (a div 86400) = (y, m, d)"
    by (cases "civil_from_days (a div 86400)")
  obtain y' m' d' where c': "civil_from_days (b div 86400) = (y', m', d')"
    by (cases "civil_from_days (b div 86400)")
  from day_in_range [OF assms(1)] have ra: "- 106752 \<le> a div 86400" "a div 86400 \<le> 106751"
    by simp_all
  from day_in_range [OF assms(2)] have rb: "- 106752 \<le> b div 86400" "b div 86400 \<le> 106751"
    by simp_all
  note ba = civil_from_days_bounds [OF ra c]
  note bb = civil_from_days_bounds [OF rb c']
  from civil_from_days_mono [OF assms(3)] c c' have "earlier (y, m, d) (y', m', d')" by simp
  then have "strftime_ymd (y, m, d) < strftime_ymd (y', m', d')"
    using ba bb by (intro strftime_ymd_less) simp_all
  with c c' show ?thesis by (simp add: date_of_def)
qed

lemma date_of_same_day: "a div 86400 = b div 86400 \<Longrightarrow> date_of a = date_of b"
  by (simp add: date_of_def)

lemma date_of_less_iff:
  assumes "in_bounds a" "in_bounds b"
  shows "date_of a < date_of b \<longleftrightarrow> a div 86400 < b div 86400"
proof
  assume l: "date_of a < date_of b"
  show "a div 86400 < b div 86400"
  proof (rule ccontr)
    assume "\<not> a div 86400 < b div 86400"
    then have "a div 86400 = b div 86400 \<or> b div 86400 < a div 86400" by auto
    then show False
    proof
      assume "a div 86400 = b div 86400"
      from date_of_same_day [OF this] l show False by simp
    next
      assume "b div 86400 < a div 86400"
      from date_of_less [OF assms(2,1) this] l show False by simp
    qed
  qed
next
  assume "a div 86400 < b div 86400"
  from date_of_less [OF assms this] show "date_of a < date_of b" .
qed

lemma date_of_eq_iff:
  assumes "in_bounds a" "in_bounds b"
  shows "date_of a = date_of b \<longleftrightarrow> a div 86400 = b div 86400"
proof
  assume e: "date_of a = date_of b"
  show "a div 86400 = b div 86400"
  proof (rule ccontr)
    assume "a div 86400 \<noteq> b div 86400"
    then have "a div 86400 < b div 86400 \<or> b div 86400 < a div 86400" by auto
    then show False
    proof
      assume "a div 86400 < b div 86400"
      from date_of_less [OF assms this] e show False by simp
    next
      assume "b div 86400 < a div 86400"
      from date_of_less [OF assms(2,1) this] e show False by simp
    qed
  qed
next
  assume "a div 86400 = b div 86400"
  then show "date_of a = date_of b" by (rule date_of_same_day)
qed

lemma to_datetime_date_of:
  assumes "in_bounds a"
  shows "to_datetime_ymd (date_of a) = civil_from_days (a div 86400)"
proof -
  obtain y m d where c: "civil_from_days (a div 86400) = (y, m, d)"
    by (cases "civil_from_days (a div 86400)")
  from day_in_range [OF assms] have ra: "- 106752 \<le> a div 86400" "a div 86400 \<le> 106751"
    by simp_all
  note ba = civil_from_days_bounds [OF ra c]
  have "to_datetime_ymd (strftime_ymd (y, m, d)) = (y, m, d)"
    using ba by (intro to_datetime_strftime) simp_all
  with c show ?thesis by (simp add: date_of_def)
qed

lemma is_date_text_date_of:
  assumes "in_bounds a"
  shows "is_date_text (date_of a)"
proof -
  obtain y m d where c: "civil_from_days (a div 86400) = (y, m, d)"
    by (cases "civil_from_days (a div 86400)")
  from day_in_range [OF assms] have ra: "- 106752 \<le> a div 86400" "a div 86400 \<le> 106751"
    by simp_all
  note ba = civil_from_days_bounds [OF ra c]
  from c have d: "date_of a = strftime_ymd (y, m, d)" by (simp add: date_of_def)
  from to_datetime_date_of [OF assms] c d
  have t: "to_datetime_ymd (strftime_ymd (y, m, d)) = (y, m, d)" by simp
  show ?thesis
    unfolding is_date_text_def d strftime_parts t prod.case
    using ba by (simp add: digits_zero_padded)
qed

lemma civil_edges:
  "civil_from_days (- 106752) = (1677, 9, 21)"
  "civil_from_days (- 106751) = (1677, 9, 22)"
  "civil_from_days 106751 = (2262, 4, 11)"
  by code_simp+

lemma midnight_in_bounds_civil:
  assumes "- 106752 \<le> z" "z \<le> 106751"
  shows "midnight_in_bounds (civil_from_days z) \<longleftrightarrow> z \<noteq> - 106752"
proof (cases "z = - 106752")
  case True
  then show ?thesis by (simp add: civil_edges midnight_in_bounds_def)
next
  case False
  obtain y m d where c: "civil_from_days z = (y, m, d)" by (cases "civil_from_days z")
  have lo: "1677 < y \<or> y = 1677 \<and> (9 < m \<or> m = 9 \<and> 22 \<le> d)"
  proof (cases "z = - 106751")
    case True
    with c show ?thesis by (simp add: civil_edges)
  next
    case False
    with \<open>z \<noteq> - 106752\<close> assms have "- 106751 < z" by simp
    from civil_from_days_mono [OF this] c show ?thesis
      by (auto simp add: civil_edges earlier_def)
  qed
  have hi: "y < 2262 \<or> y = 2262 \<and> (m < 4 \<or> m = 4 \<and> d \<le> 11)"
  proof (cases "z = 106751")
    case True
    with c show ?thesis by (simp add: civil_edges)
  next
    case False
    with assms have "z < 106751" by simp
    from civil_from_days_mono [OF this] c show ?thesis
      by (auto simp add: civil_edges earlier_def)
  qed
  from lo hi c False show ?thesis by (simp add: midnight_in_bounds_def)
qed

lemma find_year_sum:
  "snd (find_year z y s n)
   = z - (s + sum_list (map year_length [y .. fst (find_year z y s n) - 1]))"
proof (induction n arbitrary: y s)
  case 0 show ?case by simp
next
  case (Suc n)
  show ?case
  proof (cases "z < s + year_length y")
    case True then show ?thesis by simp
  next
    case False
    let ?y' = "fst (find_year z (y + 1) (s + year_length y) n)"
    from find_year_fst_ge [of "y + 1" z "s + year_length y" n] have "y \<le> ?y' - 1" by simp
    then have "[y .. ?y' - 1] = y # [y + 1 .. ?y' - 1]" by (simp add: upto_rec1)
    with False Suc [of "y + 1" "s + year_length y"] show ?thesis by simp
  qed
qed

lemma find_month_sum:
  "snd (find_month r m ls)
   = r - sum_list (take (nat (fst (find_month r m ls) - m)) ls) + 1"
proof (induction ls arbitrary: r m)
  case Nil show ?case by simp
next
  case (Cons l ls)
  show ?case
  proof (cases "r < l")
    case True then show ?thesis by simp
  next
    case False
    let ?m' = "fst (find_month (r - l) (m + 1) ls)"
    from find_month_fst_ge [of "m + 1" "r - l" ls] have "m + 1 \<le> ?m'" .
    then have "nat (?m' - m) = Suc (nat (?m' - (m + 1)))" by simp
    with False Cons [of "r - l" "m + 1"] show ?thesis by simp
  qed
qed

lemma days_from_civil_inverse: "days_from_civil (civil_from_days z) = z"
proof -
  obtain y r where f: "find_year z 1677 (- 107015) 585 = (y, r)" by (cases "find_year z 1677 (- 107015) 585")
  obtain m d where g: "find_month r 1 (month_lengths y) = (m, d)" by (cases "find_month r 1 (month_lengths y)")
  from find_year_sum [of z 1677 "- 107015" 585] f
  have a: "r = z - (- 107015 + sum_list (map year_length [1677 .. y - 1]))" by simp
  from find_month_sum [of r 1 "month_lengths y"] g
  have b: "d = r - sum_list (take (nat (m - 1)) (month_lengths y)) + 1" by simp
  from f g have "civil_from_days z = (y, m, d)" by (simp add: civil_from_days_def)
  with a b show ?thesis by (simp add: days_from_civil_def)
qed

lemma weekday_of_day: "weekday_of (civil_from_days z) = (z + 3) mod 7"
  by (simp add: weekday_of_def days_from_civil_inverse)

lemma present_map_Some: "present (map Some xs) = xs"
  by (induction xs) (simp_all add: present_def)

lemma present_clipped:
  "list_all in_bounds
     (present (map (\<lambda>v. case v of None \<Rightarrow> None
                        | Some s \<Rightarrow> if in_bounds s then Some s else None) stamps))"
  by (induction stamps) (simp_all add: present_def split: option.splits)

lemma to_datetime_s_in_bounds:
  "list_all in_bounds df \<Longrightarrow> to_datetime_s w df = Inr (map Some df)"
  by (simp add: to_datetime_s_def)

lemma to_datetime_s_present:
  assumes "to_datetime_s w df = Inr col"
  shows "list_all in_bounds (present col)"
proof (cases "list_all in_bounds df")
  case True
  with assms have "col = map Some df" by (simp add: to_datetime_s_def)
  with True show ?thesis by (simp add: present_map_Some)
next
  case False
  with assms obtain stamps where
    "col = map (\<lambda>v. case v of None \<Rightarrow> None
                   | Some s \<Rightarrow> if in_bounds s then Some s else None) stamps"
    by (auto simp add: to_datetime_s_def split: sum.splits)
  then show ?thesis by (simp only: present_clipped)
qed

lemma ridecount_table_Inr:
  "ridecount_table w df = Inr t \<longleftrightarrow>
     df \<noteq> []
     \<and> (\<exists>col. to_datetime_s w df = Inr col
           \<and> t = sort_index_descending (groupby_count (map date_of (present col))))"
  by (auto simp add: ridecount_table_def split: sum.splits)

lemma ridecount_table_rows:
  assumes b: "list_all in_bounds stamps"
    and t: "t = sort_index_descending (groupby_count (map date_of stamps))"
  shows "set (map fst t) = date_of ` set stamps"
    and "distinct (map fst t)"
    and "length t = card ((\<lambda>s. s div 86400) ` set stamps)"
    and "sorted_wrt (\<lambda>a b. a > b) (map fst t)"
    and "i < j \<Longrightarrow> j < length t \<Longrightarrow> a \<in> set stamps \<Longrightarrow> b \<in> set stamps \<Longrightarrow>
         date_of a = fst (t ! i) \<Longrightarrow> date_of b = fst (t ! j) \<Longrightarrow> b div 86400 < a div 86400"
    and "a \<in> set stamps \<Longrightarrow>
         (date_of a, length (filter (\<lambda>s. s div 86400 = a div 86400) stamps)) \<in> set t"
proof -
  let ?g = "groupby_count (map date_of stamps)"
  from b have ib: "\<And>s. s \<in> set stamps \<Longrightarrow> in_bounds s" by (simp add: list_all_iff)
  have dg: "distinct (map fst ?g)" by (rule groupby_count_distinct)
  have "set (map fst t) = fst ` set ?g"
    by (simp add: t sort_index_descending_set)
  also have "\<dots> = set (map date_of stamps)"
    using groupby_count_keys [of "map date_of stamps"] by simp
  finally show keys: "set (map fst t) = date_of ` set stamps" by simp
  show dt: "distinct (map fst t)"
    unfolding t by (rule sort_index_descending_order(2) [OF dg])
  from dt have "card (set (map fst t)) = length (map fst t)" by (rule distinct_card)
  with keys have l: "length t = card (date_of ` set stamps)" by simp
  have "inj_on (\<lambda>z. strftime_ymd (civil_from_days z)) ((\<lambda>s. s div 86400) ` set stamps)"
  proof (rule inj_onI)
    fix x y
    assume "x \<in> (\<lambda>s. s div 86400) ` set stamps" "y \<in> (\<lambda>s. s div 86400) ` set stamps"
      and e: "strftime_ymd (civil_from_days x) = strftime_ymd (civil_from_days y)"
    then obtain a c where ac: "a \<in> set stamps" "c \<in> set stamps"
      "x = a div 86400" "y = c div 86400" by auto
    from e ac have "date_of a = date_of c" by (simp add: date_of_def)
    with date_of_eq_iff [OF ib [OF ac(1)] ib [OF ac(2)]] ac show "x = y" by simp
  qed
  then have "card ((\<lambda>z. strftime_ymd (civil_from_days z)) ` (\<lambda>s. s div 86400) ` set stamps)
      = card ((\<lambda>s. s div 86400) ` set stamps)"
    by (rule card_image)
  moreover have "(\<lambda>z. strftime_ymd (civil_from_days z)) ` (\<lambda>s. s div 86400) ` set stamps
      = date_of ` set stamps"
    by (simp add: image_image date_of_def)
  ultimately show "length t = card ((\<lambda>s. s div 86400) ` set stamps)" using l by simp
  show s: "sorted_wrt (\<lambda>a b. a > b) (map fst t)"
    unfolding t by (rule sort_index_descending_order(1) [OF dg])
  {
    assume ij: "i < j" "j < length t" and ab: "a \<in> set stamps" "b \<in> set stamps"
      and k: "date_of a = fst (t ! i)" "date_of b = fst (t ! j)"
    from sorted_wrt_nth_less [OF s, of i j] ij
    have "fst (t ! j) < fst (t ! i)" by simp
    with k have "date_of b < date_of a" by simp
    with date_of_less_iff [OF ib [OF ab(2)] ib [OF ab(1)]]
    show "b div 86400 < a div 86400" by simp
  }
  {
    assume a: "a \<in> set stamps"
    with keys have "date_of a \<in> fst ` set t" by simp
    then obtain n where n: "(date_of a, n) \<in> set t" by force
    then have "(date_of a, n) \<in> set ?g" by (simp add: t sort_index_descending_set)
    then have "n = length (filter (\<lambda>x. x = date_of a) (map date_of stamps))"
      by (rule groupby_count_counts)
    also have "\<dots> = length (filter (\<lambda>s. date_of s = date_of a) stamps)"
      by (simp add: filter_map comp_def)
    also have "filter (\<lambda>s. date_of s = date_of a) stamps
        = filter (\<lambda>s. s div 86400 = a div 86400) stamps"
      by (rule filter_cong) (simp_all add: date_of_eq_iff [OF ib ib [OF a]])
    finally show "(date_of a, length (filter (\<lambda>s. s div 86400 = a div 86400) stamps)) \<in> set t"
      using n by simp
  }
qed

lemma enrich_row_date_of:
  assumes "in_bounds a" "fst entry = date_of a"
  shows "date (enrich_row entry) = civil_from_days (a div 86400)"
    and "rides (enrich_row entry) = snd entry"
    and "year (enrich_row entry) = fst (date (enrich_row entry))"
    and "month (enrich_row entry) = fst (snd (date (enrich_row entry)))"
    and "day (enrich_row entry) = snd (snd (date (enrich_row entry)))"
    and "weekday_num (enrich_row entry) = (a div 86400 + 3) mod 7"
    and "weekday (enrich_row entry) = day_names ! nat (weekday_num (enrich_row entry))"
    and "month_name (enrich_row entry) = month_abbr ! nat (month (enrich_row entry))"
  using assms
  by (simp_all add: enrich_row_def Let_def to_datetime_date_of weekday_of_day)

lemma enrich_ridecounts_days:
  assumes b: "list_all in_bounds stamps"
    and keys: "set (map fst t) = date_of ` set stamps"
  shows "enrich_ridecounts w t =
     (if \<exists>a\<in>set stamps. a div 86400 = - 106752 then Inl OutOfBoundsDatetime
      else Inr (map enrich_row t))"
proof -
  from b have ib: "\<And>s. s \<in> set stamps \<Longrightarrow> in_bounds s" by (simp add: list_all_iff)
  have row: "\<And>row. row \<in> set t \<Longrightarrow> \<exists>a\<in>set stamps. fst row = date_of a"
    using keys by force
  have texts: "list_all (\<lambda>row. is_date_text (fst row)) t"
    unfolding list_all_iff
  proof
    fix row assume "row \<in> set t"
    from row [OF this] obtain a where "a \<in> set stamps" "fst row = date_of a" by blast
    with is_date_text_date_of [OF ib] show "is_date_text (fst row)" by simp
  qed
  have "list_all (\<lambda>row. midnight_in_bounds (to_datetime_ymd (fst row))) t
      \<longleftrightarrow> \<not> (\<exists>a\<in>set stamps. a div 86400 = - 106752)"
  proof
    assume all: "list_all (\<lambda>row. midnight_in_bounds (to_datetime_ymd (fst row))) t"
    show "\<not> (\<exists>a\<in>set stamps. a div 86400 = - 106752)"
    proof
      assume "\<exists>a\<in>set stamps. a div 86400 = - 106752"
      then obtain a where a: "a \<in> set stamps" "a div 86400 = - 106752" by blast
      with keys have "date_of a \<in> fst ` set t" by simp
      then obtain row where r: "row \<in> set t" "fst row = date_of a" by force
      with all have "midnight_in_bounds (to_datetime_ymd (date_of a))"
        by (auto simp add: list_all_iff)
      with to_datetime_date_of [OF ib [OF a(1)]] a(2)
      show False by (simp add: midnight_in_bounds_civil)
    qed
  next
    assume none: "\<not> (\<exists>a\<in>set stamps. a div 86400 = - 106752)"
    show "list_all (\<lambda>row. midnight_in_bounds (to_datetime_ymd (fst row))) t"
      unfolding list_all_iff
    proof
      fix row assume "row \<in> set t"
      from row [OF this] obtain a where a: "a \<in> set stamps" "fst row = date_of a" by blast
      from day_in_range [OF ib [OF a(1)]]
      have "midnight_in_bounds (civil_from_days (a div 86400)) \<longleftrightarrow> a div 86400 \<noteq> - 106752"
        by (intro midnight_in_bounds_civil) simp_all
      with none a to_datetime_date_of [OF ib [OF a(1)]]
      show "midnight_in_bounds (to_datetime_ymd (fst row))" by auto
    qed
  qed
  with texts show ?thesis by (simp add: enrich_ridecounts_def)
qed

lemma pages_needed_pos: "0 < t \<Longrightarrow> 0 < pages_needed t"
  using pages_needed_step [of 0 t] by simp

lemma get_region_ridecounts_table:
  assumes "region_known w name i" "page_ok (region_by_id w i)"
    and "\<forall>p<pages_needed (ridden (page_data (region_by_id w i))).
           page_ok (ridelog_created w i 500 p)"
    and "0 < ridden (page_data (region_by_id w i))"
  shows "snd (get_region_ridecounts w name st) =
     (case ridecount_table w
             (concat (map (\<lambda>p. page_data (ridelog_created w i 500 p))
                [0 ..< pages_needed (ridden (page_data (region_by_id w i)))])) of
        Inl e \<Rightarrow> Inl e
      | Inr t \<Rightarrow> enrich_ridecounts w t)"
proof -
  let ?n = "pages_needed (ridden (page_data (region_by_id w i)))"
  from assms(3) have ok: "\<forall>p\<in>set [0 ..< ?n]. page_ok (ridelog_created w i 500 p)" by simp
  from assms(4) have "0 < ?n" by (rule pages_needed_pos)
  then have ne: "[0 ..< ?n] \<noteq> []" by simp
  show ?thesis
    using ne
    by (simp add: get_region_ridecounts_known [OF assms(1,2)] fetch_pages_all_ok [OF ok]
        pd_concat_def)
qed

lemma demo_table:
  "ridecount_table demo_api [1660435200, 1660348800, 1660500000]
     = Inr [(''2022-08-14'', 2), (''2022-08-13'', 1)]"
  by code_simp

lemma demo_enriched:
  "enrich_ridecounts demo_api [(''2022-08-14'', 2), (''2022-08-13'', 1)]
     = Inr [\<lparr>date = (2022, 8, 14), rides = 2, year = 2022, month = 8, day = 14,
               weekday_num = 6, weekday = ''Sunday'', month_name = ''Aug''\<rparr>,
            \<lparr>date = (2022, 8, 13), rides = 1, year = 2022, month = 8, day = 13,
               weekday_num = 5, weekday = ''Saturday'', month_name = ''Aug''\<rparr>]"
  by code_simp

lemma first_day_table:
  "ridecount_table demo_api [- 9223372036] = Inr [(''1677-09-21'', 1)]"
  by code_simp

lemma demo_dates:
  "date_of 1660435200 = ''2022-08-14''"
  "date_of 1660348800 = ''2022-08-13''"
  "date_of 1660500000 = ''2022-08-14''"
  by code_simp+

text \<open>
  Claim C7. \<open>df\<close> is the concatenated data set, the column \<open>created\<close> of the ride
  logs; \<open>col\<close> is the column of their time stamps, and \<open>present col\<close> are the time
  stamps of the rides that have one (all of \<open>df\<close> when its values lie within the range
  of a time stamp, and then a table is returned). The day of a ride is the day number of
  its time stamp, the floor of the seconds divided by 86400. Whenever the count table is
  returned, it has exactly one row for each day that occurs, so as many rows as there are
  distinct days; its keys are the texts \<open>YYYY-MM-DD\<close> of the days; the rows are in strictly
  descending order, of the keys and of the days they stand for; and the row of a day
  counts the rides of that day. The enrichment raises \<open>OutOfBoundsDatetime\<close> exactly
  when a ride falls on the day 1677-09-21, whose midnight is no time stamp, and raises
  nothing else; otherwise it returns the same rows in the same order, and in each row the
  date is the civil date of the day, the count is kept, year, month and day of month are
  the parts of the date, the weekday index is that of the day, counted from Monday, and
  weekday name and month abbreviation are taken from the index and the month. Within the
  range, two time stamps have the same key exactly when they have the same day number, and
  the order of the keys is the order of the day numbers. The last part says that
  \<open>get_region_ridecounts\<close> returns what count table and enrichment give for the
  concatenation of the pages.
\<close>

theorem ridecounts_by_day:
  "(df \<noteq> [] \<and> list_all in_bounds df \<longrightarrow>
      to_datetime_s w df = Inr (map Some df) \<and> present (map Some df) = df
      \<and> (\<exists>t. ridecount_table w df = Inr t))
   \<and> (\<forall>col t. to_datetime_s w df = Inr col \<and> ridecount_table w df = Inr t \<longrightarrow>
         list_all in_bounds (present col)
         \<and> set (map fst t) = date_of ` set (present col)
         \<and> distinct (map fst t)
         \<and> length t = card ((\<lambda>s. s div 86400) ` set (present col))
         \<and> sorted_wrt (\<lambda>a b. a > b) (map fst t)
         \<and> (\<forall>i j. i < j \<and> j < length t \<longrightarrow>
               (\<forall>a\<in>set (present col). \<forall>b\<in>set (present col).
                  date_of a = fst (t ! i) \<and> date_of b = fst (t ! j) \<longrightarrow>
                  b div 86400 < a div 86400))
         \<and> (\<forall>a\<in>set (present col).
               (date_of a, length (filter (\<lambda>s. s div 86400 = a div 86400) (present col)))
                 \<in> set t)
         \<and> ((\<exists>e. enrich_ridecounts w t = Inl e)
              \<longleftrightarrow> (\<exists>a\<in>set (present col). a div 86400 = - 106752))
         \<and> (\<forall>e. enrich_ridecounts w t = Inl e \<longrightarrow> e = OutOfBoundsDatetime)
         \<and> (\<forall>rows. enrich_ridecounts w t = Inr rows \<longrightarrow>
               length rows = length t
               \<and> (\<forall>j<length t. \<forall>a\<in>set (present col). date_of a = fst (t ! j) \<longrightarrow>
                     (let r = rows ! j in
                        date r = civil_from_days (a div 86400) \<and> rides r = snd (t ! j)
                        \<and> year r = fst (date r) \<and> month r = fst (snd (date r))
                        \<and> day r = snd (snd (date r))
                        \<and> weekday_num r = (a div 86400 + 3) mod 7
                        \<and> weekday r = day_names ! nat (weekday_num r)
                        \<and> month_name r = month_abbr ! nat (month r)))))
   \<and> (\<forall>a b. in_bounds a \<and> in_bounds b \<longrightarrow>
         (date_of a = date_of b \<longleftrightarrow> a div 86400 = b div 86400)
         \<and> (date_of a < date_of b \<longleftrightarrow> a div 86400 < b div 86400))
   \<and> (\<forall>name i.
         region_known w name i \<and> page_ok (region_by_id w i)
         \<and> (\<forall>p<pages_needed (ridden (page_data (region_by_id w i))).
                page_ok (ridelog_created w i 500 p))
         \<and> 0 < ridden (page_data (region_by_id w i)) \<longrightarrow>
         snd (get_region_ridecounts w name st) =
           (case ridecount_table w
                   (concat (map (\<lambda>p. page_data (ridelog_created w i 500 p))
                      [0 ..< pages_needed (ridden (page_data (region_by_id w i)))])) of
              Inl e \<Rightarrow> Inl e
            | Inr t \<Rightarrow> enrich_ridecounts w t))"
proof -
  have p1: "df \<noteq> [] \<and> list_all in_bounds df \<longrightarrow>
      to_datetime_s w df = Inr (map Some df) \<and> present (map Some df) = df
      \<and> (\<exists>t. ridecount_table w df = Inr t)"
    by (simp add: to_datetime_s_in_bounds present_map_Some ridecount_table_Inr)
  have p2: "list_all in_bounds (present col)
         \<and> set (map fst t) = date_of ` set (present col)
         \<and> distinct (map fst t)
         \<and> length t = card ((\<lambda>s. s div 86400) ` set (present col))
         \<and> sorted_wrt (\<lambda>a b. a > b) (map fst t)
         \<and> (\<forall>i j. i < j \<and> j < length t \<longrightarrow>
               (\<forall>a\<in>set (present col). \<forall>b\<in>set (present col).
                  date_of a = fst (t ! i) \<and> date_of b = fst (t ! j) \<longrightarrow>
                  b div 86400 < a div 86400))
         \<and> (\<forall>a\<in>set (present col).
               (date_of a, length (filter (\<lambda>s. s div 86400 = a div 86400) (present col)))
                 \<in> set t)
         \<and> ((\<exists>e. enrich_ridecounts w t = Inl e)
              \<longleftrightarrow> (\<exists>a\<in>set (present col). a div 86400 = - 106752))
         \<and> (\<forall>e. enrich_ridecounts w t = Inl e \<longrightarrow> e = OutOfBoundsDatetime)
         \<and> (\<forall>rows. enrich_ridecounts w t = Inr rows \<longrightarrow>
               length rows = length t
               \<and> (\<forall>j<length t. \<forall>a\<in>set (present col). date_of a = fst (t ! j) \<longrightarrow>
                     (let r = rows ! j in
                        date r = civil_from_days (a div 86400) \<and> rides r = snd (t ! j)
                        \<and> year r = fst (date r) \<and> month r = fst (snd (date r))
                        \<and> day r = snd (snd (date r))
                        \<and> weekday_num r = (a div 86400 + 3) mod 7
                        \<and> weekday r = day_names ! nat (weekday_num r)
                        \<and> month_name r = month_abbr ! nat (month r))))"
    if h: "to_datetime_s w df = Inr col \<and> ridecount_table w df = Inr t" for col t
  proof -
    from h have b: "list_all in_bounds (present col)"
      by (intro to_datetime_s_present [of w df]) simp
    then have ib: "\<And>s. s \<in> set (present col) \<Longrightarrow> in_bounds s" by (simp add: list_all_iff)
    from h have t: "t = sort_index_descending (groupby_count (map date_of (present col)))"
      by (auto simp add: ridecount_table_Inr)
    note rows = ridecount_table_rows [OF b t]
    note en = enrich_ridecounts_days [OF b rows(1), of w]
    have c6: "\<forall>i j. i < j \<and> j < length t \<longrightarrow>
               (\<forall>a\<in>set (present col). \<forall>b\<in>set (present col).
                  date_of a = fst (t ! i) \<and> date_of b = fst (t ! j) \<longrightarrow>
                  b div 86400 < a div 86400)"
      using rows(5) by blast
    have c7: "\<forall>a\<in>set (present col).
               (date_of a, length (filter (\<lambda>s. s div 86400 = a div 86400) (present col)))
                 \<in> set t"
      using rows(6) by blast
    have c8: "(\<exists>e. enrich_ridecounts w t = Inl e)
              \<longleftrightarrow> (\<exists>a\<in>set (present col). a div 86400 = - 106752)"
      by (simp add: en)
    have c9: "\<forall>e. enrich_ridecounts w t = Inl e \<longrightarrow> e = OutOfBoundsDatetime"
      by (simp add: en)
    have c10: "\<forall>rows. enrich_ridecounts w t = Inr rows \<longrightarrow>
               length rows = length t
               \<and> (\<forall>j<length t. \<forall>a\<in>set (present col). date_of a = fst (t ! j) \<longrightarrow>
                     (let r = rows ! j in
                        date r = civil_from_days (a div 86400) \<and> rides r = snd (t ! j)
                        \<and> year r = fst (date r) \<and> month r = fst (snd (date r))
                        \<and> day r = snd (snd (date r))
                        \<and> weekday_num r = (a div 86400 + 3) mod 7
                        \<and> weekday r = day_names ! nat (weekday_num r)
                        \<and> month_name r = month_abbr ! nat (month r)))"
    proof (intro allI impI conjI ballI)
      fix rows assume "enrich_ridecounts w t = Inr rows"
      with en have r: "rows = map enrich_row t" by (simp split: if_splits)
      then show "length rows = length t" by simp
      fix j a
      assume j: "j < length t" and a: "a \<in> set (present col)" "date_of a = fst (t ! j)"
      note f = enrich_row_date_of [OF ib [OF a(1)] a(2) [symmetric]]
      from j r have "rows ! j = enrich_row (t ! j)" by simp
      then show "let r = rows ! j in
                        date r = civil_from_days (a div 86400) \<and> rides r = snd (t ! j)
                        \<and> year r = fst (date r) \<and> month r = fst (snd (date r))
                        \<and> day r = snd (snd (date r))
                        \<and> weekday_num r = (a div 86400 + 3) mod 7
                        \<and> weekday r = day_names ! nat (weekday_num r)
                        \<and> month_name r = month_abbr ! nat (month r)"
        unfolding Let_def
        by (intro conjI) (simp_all only: f)
    qed
    from b rows(1,2,3,4) c6 c7 c8 c9 c10 show ?thesis by (intro conjI)
  qed
  have p3: "\<forall>a b. in_bounds a \<and> in_bounds b \<longrightarrow>
         (date_of a = date_of b \<longleftrightarrow> a div 86400 = b div 86400)
         \<and> (date_of a < date_of b \<longleftrightarrow> a div 86400 < b div 86400)"
    using date_of_eq_iff date_of_less_iff by blast
  have p4: "\<forall>name i.
         region_known w name i \<and> page_ok (region_by_id w i)
         \<and> (\<forall>p<pages_needed (ridden (page_data (region_by_id w i))).
                page_ok (ridelog_created w i 500 p))
         \<and> 0 < ridden (page_data (region_by_id w i)) \<longrightarrow>
         snd (get_region_ridecounts w name st) =
           (case ridecount_table w
                   (concat (map (\<lambda>p. page_data (ridelog_created w i 500 p))
                      [0 ..< pages_needed (ridden (page_data (region_by_id w i)))])) of
              Inl e \<Rightarrow> Inl e
            | Inr t \<Rightarrow> enrich_ridecounts w t)"
    using get_region_ridecounts_table [of w _ _ st] by blast
  from p2 have p2': "\<forall>col t. to_datetime_s w df = Inr col \<and> ridecount_table w df = Inr t \<longrightarrow>
         list_all in_bounds (present col)
         \<and> set (map fst t) = date_of ` set (present col)
         \<and> distinct (map fst t)
         \<and> length t = card ((\<lambda>s. s div 86400) ` set (present col))
         \<and> sorted_wrt (\<lambda>a b. a > b) (map fst t)
         \<and> (\<forall>i j. i < j \<and> j < length t \<longrightarrow>
               (\<forall>a\<in>set (present col). \<forall>b\<in>set (present col).
                  date_of a = fst (t ! i) \<and> date_of b = fst (t ! j) \<longrightarrow>
                  b div 86400 < a div 86400))
         \<and> (\<forall>a\<in>set (present col).
               (date_of a, length (filter (\<lambda>s. s div 86400 = a div 86400) (present col)))
                 \<in> set t)
         \<and> ((\<exists>e. enrich_ridecounts w t = Inl e)
              \<longleftrightarrow> (\<exists>a\<in>set (present col). a div 86400 = - 106752))
         \<and> (\<forall>e. enrich_ridecounts w t = Inl e \<longrightarrow> e = OutOfBoundsDatetime)
         \<and> (\<forall>rows. enrich_ridecounts w t = Inr rows \<longrightarrow>
               length rows = length t
               \<and> (\<forall>j<length t. \<forall>a\<in>set (present col). date_of a = fst (t ! j) \<longrightarrow>
                     (let r = rows ! j in
                        date r = civil_from_days (a div 86400) \<and> rides r = snd (t ! j)
                        \<and> year r = fst (date r) \<and> month r = fst (snd (date r))
                        \<and> day r = snd (snd (date r))
                        \<and> weekday_num r = (a div 86400 + 3) mod 7
                        \<and> weekday r = day_names ! nat (weekday_num r)
                        \<and> month_name r = month_abbr ! nat (month r))))"
    by (intro allI impI)
  from p1 p2' p3 p4 show ?thesis by (intro conjI)
qed

text \<open>
  Three rides, two of them on the same day at different times, and the operation in the
  example world; then a ride at the first second of the range, whose day is 1677-09-21.
\<close>

theorem ridecounts_by_day_witness:
  "ridecount_table demo_api [1660435200, 1660348800, 1660500000]
     = Inr [(''2022-08-14'', 2), (''2022-08-13'', 1)]
   \<and> to_datetime_s demo_api [1660435200, 1660348800, 1660500000]
     = Inr [Some 1660435200, Some 1660348800, Some 1660500000]
   \<and> sorted_wrt (\<lambda>a b. a > b) [''2022-08-14'', ''2022-08-13'']
   \<and> card ((\<lambda>s. s div 86400) ` {1660435200, 1660348800, 1660500000 :: int}) = 2
   \<and> (1660348800 :: int) div 86400 < 1660435200 div 86400
   \<and> date_of 1660435200 = date_of 1660500000
   \<and> snd (get_region_ridecounts demo_api ''lebanon-hills'' start)
     = Inr [\<lparr>date = (2022, 8, 14), rides = 2, year = 2022, month = 8, day = 14,
               weekday_num = 6, weekday = ''Sunday'', month_name = ''Aug''\<rparr>,
            \<lparr>date = (2022, 8, 13), rides = 1, year = 2022, month = 8, day = 13,
               weekday_num = 5, weekday = ''Saturday'', month_name = ''Aug''\<rparr>]
   \<and> ridecount_table demo_api [- 9223372036] = Inr [(''1677-09-21'', 1)]
   \<and> enrich_ridecounts demo_api [(''1677-09-21'', 1)] = Inl OutOfBoundsDatetime"
proof -
  let ?df = "[1660435200, 1660348800, 1660500000] :: int list"
  let ?t = "[(''2022-08-14'', 2), (''2022-08-13'', 1)] :: (string \<times> nat) list"
  note t = ridecounts_by_day [where df = ?df and w = demo_api and st = start]
  have inb: "?df \<noteq> [] \<and> list_all in_bounds ?df" by (simp add: in_bounds_def)
  note p1 = t [THEN conjunct1, THEN mp, OF inb]
  from p1 have col: "to_datetime_s demo_api ?df = Inr (map Some ?df)" by (rule conjunct1)
  then have c0: "to_datetime_s demo_api ?df
      = Inr [Some 1660435200, Some 1660348800, Some 1660500000]"
    by simp
  have h: "to_datetime_s demo_api ?df = Inr (map Some ?df)
      \<and> ridecount_table demo_api ?df = Inr ?t"
    using col demo_table by (rule conjI)
  note body = t [THEN conjunct2, THEN conjunct1, THEN spec, THEN spec, THEN mp, OF h]
  note rest = body [THEN conjunct2, THEN conjunct2, THEN conjunct2]
  from rest [THEN conjunct1, unfolded present_map_Some]
  have c2: "card ((\<lambda>s. s div 86400) ` {1660435200, 1660348800, 1660500000 :: int}) = 2"
    by simp
  from rest [THEN conjunct2, THEN conjunct1]
  have c1: "sorted_wrt (\<lambda>a b. a > b) [''2022-08-14'', ''2022-08-13'']"
    by (simp only: list.map fst_conv)
  have ij: "(0::nat) < 1 \<and> 1 < length ?t" by simp
  have m1: "1660435200 \<in> set (present (map Some ?df))"
    and m2: "1660348800 \<in> set (present (map Some ?df))"
    unfolding present_map_Some by simp_all
  have k: "date_of 1660435200 = fst (?t ! 0) \<and> date_of 1660348800 = fst (?t ! 1)"
    by (simp add: demo_dates)
  note c3 = rest [THEN conjunct2, THEN conjunct2, THEN conjunct1,
      THEN spec [where x = 0], THEN spec [where x = 1], THEN mp, OF ij,
      THEN bspec, OF m1, THEN bspec, OF m2, THEN mp, OF k]
  have b2: "in_bounds 1660435200 \<and> in_bounds 1660500000" by (simp add: in_bounds_def)
  have day: "(1660435200::int) div 86400 = 1660500000 div 86400" by simp
  note same = t [THEN conjunct2, THEN conjunct2, THEN conjunct1, THEN spec, THEN spec,
      THEN mp, OF b2, THEN conjunct1, THEN iffD2, OF day]
  have info: "region_by_id demo_api 3112 = ok_response \<lparr>ridden = 1200\<rparr>"
    by (simp add: demo_api_def)
  have n: "pages_needed (ridden (page_data (region_by_id demo_api 3112))) = 3"
    by (simp add: info ok_response_def page_data_def pages_needed_1200)
  have info_ok: "page_ok (region_by_id demo_api 3112)"
    "0 < ridden (page_data (region_by_id demo_api 3112))"
    by (simp_all add: info ok_response_def page_ok_def page_data_def)
  have hop: "region_known demo_api ''lebanon-hills'' 3112 \<and> page_ok (region_by_id demo_api 3112)
         \<and> (\<forall>p<pages_needed (ridden (page_data (region_by_id demo_api 3112))).
                page_ok (ridelog_created demo_api 3112 500 p))
         \<and> 0 < ridden (page_data (region_by_id demo_api 3112))"
    using demo_known(1) demo_created_ok info_ok by blast
  note op = t [THEN conjunct2, THEN conjunct2, THEN conjunct2, rule_format, OF hop]
  have r: "[0 ..< 3] = [0, 1, 2::nat]" by (simp add: upt_rec)
  have pd: "page_data (ridelog_created demo_api 3112 500 0) = [1660435200, 1660348800]"
    "page_data (ridelog_created demo_api 3112 500 (Suc 0)) = [1660500000]"
    "page_data (ridelog_created demo_api 3112 500 2) = []"
    by (simp_all add: demo_api_def ok_response_def page_data_def)
  from op have result: "snd (get_region_ridecounts demo_api ''lebanon-hills'' start)
      = enrich_ridecounts demo_api ?t"
    by (simp add: n r pd demo_table)
  then have c5: "snd (get_region_ridecounts demo_api ''lebanon-hills'' start)
     = Inr [\<lparr>date = (2022, 8, 14), rides = 2, year = 2022, month = 8, day = 14,
               weekday_num = 6, weekday = ''Sunday'', month_name = ''Aug''\<rparr>,
            \<lparr>date = (2022, 8, 13), rides = 1, year = 2022, month = 8, day = 13,
               weekday_num = 5, weekday = ''Saturday'', month_name = ''Aug''\<rparr>]"
    by (simp only: demo_enriched)
  let ?first = "[- 9223372036] :: int list"
  note u = ridecounts_by_day [where df = ?first and w = demo_api and st = start]
  have inb': "?first \<noteq> [] \<and> list_all in_bounds ?first" by (simp add: in_bounds_def)
  from u [THEN conjunct1, THEN mp, OF inb']
  have col': "to_datetime_s demo_api ?first = Inr (map Some ?first)" by (rule conjunct1)
  have h': "to_datetime_s demo_api ?first = Inr (map Some ?first)
      \<and> ridecount_table demo_api ?first = Inr [(''1677-09-21'', 1)]"
    using col' first_day_table by (rule conjI)
  note body' = u [THEN conjunct2, THEN conjunct1, THEN spec, THEN spec, THEN mp, OF h']
  note rest' = body' [THEN conjunct2, THEN conjunct2, THEN conjunct2, THEN conjunct2,
      THEN conjunct2, THEN conjunct2, THEN conjunct2]
  have "\<exists>a\<in>set (present (map Some ?first)). a div 86400 = - 106752"
    unfolding present_map_Some by simp
  from rest' [THEN conjunct1, THEN iffD2, OF this]
  obtain e where e: "enrich_ridecounts demo_api [(''1677-09-21'', 1)] = Inl e" by blast
  from rest' [THEN conjunct2, THEN conjunct1, THEN spec, THEN mp, OF e] e
  have c6: "enrich_ridecounts demo_api [(''1677-09-21'', 1)] = Inl OutOfBoundsDatetime"
    by simp
  show ?thesis
    by (intro conjI demo_table c0 c1 c2 c3 same c5 first_day_table c6)
qed

end
